theory Spec2Isabelle
  imports Complex_Main "HOL-Library.Word" "HOL-Library.Signed_Division" "HOL-Library.Log_Nat"
begin

chapter \<open>VirtualTouchscreen: calibration, prediction queue, finger tracker, touch decider\<close>

text \<open>
  A shallow embedding of the parts of the VirtualTouchscreen sources that the checked
  properties are about. Every definition follows one source function (named in the text
  before it). Calls into OpenCV (contour extraction, convex hull, window display) are
  inputs of the model; the control flow and arithmetic around them is the program's.
\<close>

section \<open>Photometric calibration: filling the colour map\<close>

text \<open>
  \<^verbatim>\<open>ViewCalibrator::find_photometric_model\<close>: the capture pattern is
  \<^verbatim>\<open>cv::Mat pattern(16, 16, CV_8UC3)\<close>, shown twice (\<open>k = 0, 1\<close>). The loop nest
  \<^verbatim>\<open>for r < pattern.rows, for c < pattern.cols\<close> stores the measured colour of block
  \<open>(r, c)\<close> at \<^verbatim>\<open>(k * 256) + (r * pattern.rows) + c\<close>.
\<close>

definition pattern_rows :: nat where
  "pattern_rows = 16"

definition pattern_cols :: nat where
  "pattern_cols = 16"

definition map_index :: "nat \<Rightarrow> nat \<Rightarrow> nat \<Rightarrow> nat" where
  "map_index k r c = (k * 256) + (r * pattern_rows) + c"

text \<open>The index expression the specification calls the intended one (row stride = columns).\<close>

definition map_index_intended :: "nat \<Rightarrow> nat \<Rightarrow> nat \<Rightarrow> nat" where
  "map_index_intended k r c = (k * 256) + (r * pattern_cols) + c"

text \<open>The iterations \<open>(k, r, c)\<close> of the fill loops, in program order.\<close>

definition fill_order :: "(nat \<times> nat \<times> nat) list" where
  "fill_order =
     concat (map (\<lambda>k. concat (map (\<lambda>r. map (\<lambda>c. (k, r, c)) [0..<pattern_cols])
                                   [0..<pattern_rows])) [0..<2])"

text \<open>The colour-map slots written, in program order, and the map after the loops.\<close>

definition written_slots :: "nat list" where
  "written_slots = map (\<lambda>(k, r, c). map_index k r c) fill_order"

definition fill_colour_map :: "(nat \<Rightarrow> nat \<Rightarrow> nat \<Rightarrow> 'a) \<Rightarrow> 'a list \<Rightarrow> 'a list" where
  "fill_colour_map measured cmap =
     foldl (\<lambda>m (k, r, c). m[map_index k r c := measured k r c]) cmap fill_order"

section \<open>Touch decider: fingertip selection\<close>

type_synonym cv_point = "int \<times> int"

text \<open>\<^verbatim>\<open>FingerTracker::Fingertip\<close>; \<^verbatim>\<open>age\<close> and \<^verbatim>\<open>id\<close> are \<^verbatim>\<open>size_t\<close>.\<close>

record fingertip =
  point :: cv_point
  com :: cv_point
  age :: "64 word"
  finger_id :: "64 word"

definition MIN_FINGER_AGE :: "64 word" where
  "MIN_FINGER_AGE = 5"

text \<open>
  The selection loop of \<^verbatim>\<open>find_touch_action\<close>: \<open>last_id\<close> is
  \<^verbatim>\<open>last_fingertip.id\<close>, \<open>oldest_age\<close> and \<open>chosen\<close> are the loop's two variables.
  An id match assigns and breaks; otherwise an age \<open>\<ge> oldest_age\<close> assigns both.
\<close>

fun select_loop ::
  "64 word \<Rightarrow> fingertip list \<Rightarrow> 64 word \<Rightarrow> fingertip option \<Rightarrow> fingertip option" where
  "select_loop last_id [] oldest_age chosen = chosen"
| "select_loop last_id (f # fs) oldest_age chosen =
     (if finger_id f = last_id then Some f
      else if oldest_age \<le> age f then select_loop last_id fs (age f) (Some f)
      else select_loop last_id fs oldest_age chosen)"

definition chosen_fingertip :: "64 word \<Rightarrow> fingertip list \<Rightarrow> fingertip option" where
  "chosen_fingertip last_id fingertips = select_loop last_id fingertips MIN_FINGER_AGE None"

section \<open>The delay queue of predicted frames\<close>

text \<open>
  \<^verbatim>\<open>MaskGenerator\<close>: \<^verbatim>\<open>m_FrameQueue\<close> and \<^verbatim>\<open>m_WriteIndex\<close> are shared under
  \<^verbatim>\<open>m_PredictionMutex\<close>; \<^verbatim>\<open>prediction_buffer\<close> is local to the producer thread and
  keeps its content between iterations. Both critical sections hold the mutex, so each
  is one atomic step on this state.
\<close>

definition prediction_delay :: nat where
  "prediction_delay = 3"

record 'f mask_generator =
  prediction_buffer :: 'f
  m_FrameQueue :: "'f list"
  m_WriteIndex :: nat

text \<open>\<^verbatim>\<open>MaskGenerator::start\<close>: the queue is resized to \<^verbatim>\<open>prediction_delay\<close> zero frames.\<close>

definition start :: "'f \<Rightarrow> 'f mask_generator" where
  "start zeros =
     \<lparr>prediction_buffer = zeros, m_FrameQueue = replicate prediction_delay zeros,
      m_WriteIndex = 0\<rparr>"

text \<open>
  One iteration of the loop of \<^verbatim>\<open>predictor_process\<close>. \<open>capture\<close> is the result of
  \<^verbatim>\<open>screen_capture->read\<close>: \<open>Some s\<close> for a new screen frame, \<open>None\<close> for a timeout;
  \<open>predictor\<close> stands for conversion, resize and \<^verbatim>\<open>calibrator.predict\<close>.
\<close>

definition predictor_process ::
  "('s \<Rightarrow> 'f) \<Rightarrow> 's option \<Rightarrow> 'f mask_generator \<Rightarrow> 'f mask_generator" where
  "predictor_process predictor capture g =
     (let buffer = (case capture of Some s \<Rightarrow> predictor s | None \<Rightarrow> prediction_buffer g)
      in g\<lparr>prediction_buffer := buffer,
           m_FrameQueue := (m_FrameQueue g)[m_WriteIndex g := buffer],
           m_WriteIndex := (m_WriteIndex g + 1) mod length (m_FrameQueue g)\<rparr>)"

text \<open>\<^verbatim>\<open>MaskGenerator::read_prediction\<close>: the frame copied to \<^verbatim>\<open>dst\<close>.\<close>

definition read_prediction :: "'f mask_generator \<Rightarrow> 'f" where
  "read_prediction g = m_FrameQueue g ! m_WriteIndex g"

text \<open>The producer loop over a sequence of capture results, and the frames it wrote.\<close>

fun producer_run :: "('s \<Rightarrow> 'f) \<Rightarrow> 's option list \<Rightarrow> 'f mask_generator \<Rightarrow> 'f mask_generator" where
  "producer_run predictor [] g = g"
| "producer_run predictor (c # cs) g = producer_run predictor cs (predictor_process predictor c g)"

fun written_frames :: "('s \<Rightarrow> 'f) \<Rightarrow> 's option list \<Rightarrow> 'f \<Rightarrow> 'f list" where
  "written_frames predictor [] buffer = []"
| "written_frames predictor (Some s # cs) buffer = predictor s # written_frames predictor cs (predictor s)"
| "written_frames predictor (None # cs) buffer = buffer # written_frames predictor cs buffer"

section \<open>Finger tracker\<close>

text \<open>The constants at the head of the finger tracker's source file and of the configuration.\<close>

definition MIN_CONTOUR_AREA :: int where
  "MIN_CONTOUR_AREA = 500"

definition ARC_MIN_SCORE :: int where
  "ARC_MIN_SCORE = 50"

definition NONMAX_PROXIMIITY :: int where
  "NONMAX_PROXIMIITY = 500"

definition MAX_TRACKING_RANGE :: int where
  "MAX_TRACKING_RANGE = 75"

definition MAX_TRACKING_LIFE :: int where
  "MAX_TRACKING_LIFE = 10"




subsection \<open>Points and rectangles\<close>

text \<open>
  \<^verbatim>\<open>cv::Point\<close> is a pair of \<^verbatim>\<open>int\<close> coordinates \<open>(x, y)\<close>, \<^verbatim>\<open>cv::Size\<close> a pair
  \<open>(width, height)\<close>. Coordinates are modelled as unbounded integers: signed overflow is
  undefined in the source language, and pixel coordinates are far from it. Division of a
  point or a size by an \<^verbatim>\<open>int\<close> is the language's truncating division (\<open>sdiv\<close>).
\<close>

type_synonym cv_size = "int \<times> int"

definition pt_add :: "cv_point \<Rightarrow> cv_point \<Rightarrow> cv_point" where
  "pt_add a b = (fst a + fst b, snd a + snd b)"

definition pt_sub :: "cv_point \<Rightarrow> cv_point \<Rightarrow> cv_point" where
  "pt_sub a b = (fst a - fst b, snd a - snd b)"

definition pt_dot :: "cv_point \<Rightarrow> cv_point \<Rightarrow> int" where
  "pt_dot a b = fst a * fst b + snd a * snd b"

definition pt_div :: "cv_point \<Rightarrow> int \<Rightarrow> cv_point" where
  "pt_div a b = (fst a sdiv b, snd a sdiv b)"

record cv_rect =
  rect_x :: int
  rect_y :: int
  rect_width :: int
  rect_height :: int

text \<open>\<^verbatim>\<open>cv::Rect(pt1, pt2)\<close>: the constructor from two corner points.\<close>

definition Rect :: "cv_point \<Rightarrow> cv_point \<Rightarrow> cv_rect" where
  "Rect pt1 pt2 =
     \<lparr>rect_x = min (fst pt1) (fst pt2), rect_y = min (snd pt1) (snd pt2),
      rect_width = max (fst pt1) (fst pt2) - min (fst pt1) (fst pt2),
      rect_height = max (snd pt1) (snd pt2) - min (snd pt1) (snd pt2)\<rparr>"

definition rect_br :: "cv_rect \<Rightarrow> cv_point" where
  "rect_br r = (rect_x r + rect_width r, rect_y r + rect_height r)"

subsection \<open>Tracker state, focus and the tracking region\<close>

text \<open>
  The members of \<^verbatim>\<open>FingerTracker\<close> that live across calls. \<^verbatim>\<open>m_Candidates\<close> is empty
  between calls (\<^verbatim>\<open>detect\<close> clears it before returning), so it is local to \<open>detect\<close> here.
\<close>

record finger_tracker =
  m_TrackingRegion :: cv_rect
  m_TrackingResetTimer :: int
  m_NextID :: "64 word"
  m_TrackingMemory :: "(fingertip \<times> int) list"


text \<open>
  The head of \<^verbatim>\<open>FingerTracker::detect\<close> (``Update tracking region''): the timer is
  decremented first and the region reset when the result is \<open>\<le> 0\<close>. \<open>mask_size\<close> is
  \<open>(mask.cols, mask.rows)\<close>.
\<close>

definition update_tracking_region :: "cv_size \<Rightarrow> finger_tracker \<Rightarrow> finger_tracker" where
  "update_tracking_region mask_size t =
     (let timer = m_TrackingResetTimer t - 1
      in if timer \<le> 0
         then t\<lparr>m_TrackingResetTimer := timer,
                 m_TrackingRegion :=
                   \<lparr>rect_x = 0, rect_y = 0, rect_width = fst mask_size,
                    rect_height = snd mask_size\<rparr>\<rparr>
         else t\<lparr>m_TrackingResetTimer := timer\<rparr>)"

text \<open>\<^verbatim>\<open>FingerTracker::edge_test\<close>.\<close>

definition edge_test :: "cv_rect \<Rightarrow> cv_point \<Rightarrow> bool" where
  "edge_test region pt \<longleftrightarrow>
     fst pt = rect_x region \<or> snd pt = rect_y region
     \<or> fst pt = fst (rect_br region) - 1 \<or> snd pt = snd (rect_br region) - 1"

subsection \<open>Candidates from one contour\<close>

text \<open>
  What OpenCV and the floating-point arc test hand to the cluster loop for one contour:
  the contour points (\<^verbatim>\<open>cv::findContours\<close>), its area (\<^verbatim>\<open>cv::contourArea\<close>), the convex
  hull as indices into the contour (\<^verbatim>\<open>cv::convexHull\<close>, stored in \<^verbatim>\<open>m_Extremities\<close>) and
  the arc score of each contour index (\<^verbatim>\<open>arc_score\<close>, computed with \<^verbatim>\<open>atan2\<close>).
\<close>

record contour_input =
  contour :: "cv_point list"
  area :: rat
  extremities :: "int list"
  arc_score :: "int \<Rightarrow> int"

type_synonym candidate = "cv_point \<times> cv_point"

text \<open>
  \<^verbatim>\<open>contour[i]\<close> for an \<^verbatim>\<open>int\<close> index: reading outside the vector is undefined behaviour,
  which the model reports as \<open>None\<close>.
\<close>

definition contour_at :: "cv_point list \<Rightarrow> int \<Rightarrow> cv_point option" where
  "contour_at c i = (if 0 \<le> i \<and> i < int (length c) then Some (c ! nat i) else None)"

text \<open>
  The candidate stored by \<^verbatim>\<open>m_Candidates.emplace_back\<close>: the tip \<^verbatim>\<open>contour[best]\<close> and the
  mean of \<^verbatim>\<open>contour[(best + 15) % size]\<close> and \<^verbatim>\<open>contour[(best - 15 + size) % size]\<close>; the
  second index is computed in \<^verbatim>\<open>size_t\<close>, hence modulo \<open>2 ^ 64\<close> first.
\<close>

definition make_candidate :: "cv_point list \<Rightarrow> int \<Rightarrow> candidate option" where
  "make_candidate c best =
     (let n = int (length c) in
      if n = 0 then None
      else case (contour_at c best, contour_at c ((best + 15) mod n),
                 contour_at c (((best - 15 + n) mod 2 ^ 64) mod n)) of
             (Some tip, Some a, Some b) \<Rightarrow> Some (tip, pt_div (pt_add a b) 2)
           | _ \<Rightarrow> None)"

text \<open>
  The loop ``Run arc tests for curved extremities'' over the hull indices in walk order.
  \<open>last_index\<close> (the source's \<^verbatim>\<open>last\<close>), \<open>best\<close> and \<open>best_score\<close> are the loop's variables, \<open>cands\<close> is
  \<^verbatim>\<open>m_Candidates\<close>. A candidate is appended only inside the branch that starts a new
  cluster; nothing follows the loop.
\<close>

fun cluster_loop ::
  "cv_point list \<Rightarrow> (int \<Rightarrow> int) \<Rightarrow> int list \<Rightarrow> int \<Rightarrow> int \<Rightarrow> int \<Rightarrow> candidate list
     \<Rightarrow> candidate list option" where
  "cluster_loop c score [] last_index best best_score cands = Some cands"
| "cluster_loop c score (index # rest) last_index best best_score cands =
     (case (contour_at c index, contour_at c last_index) of
        (Some p, Some q) \<Rightarrow>
          (let v = pt_sub p q in
           if NONMAX_PROXIMIITY < pt_dot v v then
             (case (if best \<noteq> - 1 then map_option (\<lambda>cand. cands @ [cand]) (make_candidate c best)
                    else Some cands) of
                None \<Rightarrow> None
              | Some cands' \<Rightarrow>
                  if ARC_MIN_SCORE < score index
                  then cluster_loop c score rest index index (score index) cands'
                  else cluster_loop c score rest index (- 1) ARC_MIN_SCORE cands')
           else if best_score < score index
                then cluster_loop c score rest index index (score index) cands
                else cluster_loop c score rest index best best_score cands)
      | _ \<Rightarrow> None)"

text \<open>
  The search ``Find an edge point on the convex hull'': the first position of the hull
  whose point passes \<open>edge_test\<close>, the hull's length when there is none.
\<close>

definition find_offset :: "cv_rect \<Rightarrow> cv_point list \<Rightarrow> int list \<Rightarrow> nat" where
  "find_offset region c ext =
     length (takeWhile (\<lambda>e. \<not> edge_test region (c ! nat e)) ext)"

text \<open>The hull indices in the order the loop visits them: \<^verbatim>\<open>m_Extremities[(offset + i) % size]\<close>.\<close>

definition walk_order :: "int list \<Rightarrow> nat \<Rightarrow> int list" where
  "walk_order ext offset = map (\<lambda>i. ext ! ((offset + i) mod length ext)) [0..<length ext]"

text \<open>
  The body of the loop over contours, for one contour. \<^verbatim>\<open>cv::convexHull\<close> returns indices
  of contour points; a hull with an index outside the contour cannot be its result and is
  reported as \<open>None\<close>.
\<close>

definition contour_candidates ::
  "cv_rect \<Rightarrow> contour_input \<Rightarrow> candidate list \<Rightarrow> candidate list option" where
  "contour_candidates region ci cands =
     (if area ci < of_int MIN_CONTOUR_AREA then Some cands
      else if extremities ci = [] then Some cands
      else if \<not> list_all (\<lambda>e. 0 \<le> e \<and> e < int (length (contour ci))) (extremities ci) then None
      else let offset = find_offset region (contour ci) (extremities ci)
           in cluster_loop (contour ci) (arc_score ci) (walk_order (extremities ci) offset)
                (int offset) (- 1) ARC_MIN_SCORE cands)"

fun find_candidates ::
  "cv_rect \<Rightarrow> contour_input list \<Rightarrow> candidate list \<Rightarrow> candidate list option" where
  "find_candidates region [] cands = Some cands"
| "find_candidates region (ci # others) cands =
     (case contour_candidates region ci cands of
        None \<Rightarrow> None
      | Some cands' \<Rightarrow> find_candidates region others cands')"

subsection \<open>Matching candidates with the tracking memory\<close>

text \<open>
  The inner loop ``Find closest candidate within tracking distance'': \<open>c\<close> is the running
  index, \<open>closest\<close> is \<^verbatim>\<open>closest_distance_sqr\<close>, the result is \<^verbatim>\<open>match_index\<close>.
\<close>

fun closest_candidate :: "cv_point \<Rightarrow> candidate list \<Rightarrow> int \<Rightarrow> int \<Rightarrow> int \<Rightarrow> int" where
  "closest_candidate p [] c closest match_index = match_index"
| "closest_candidate p (cand # cs) c closest match_index =
     (let offset = pt_sub p (fst cand); distance_sqr = pt_dot offset offset
      in if distance_sqr < closest
         then closest_candidate p cs (c + 1) distance_sqr c
         else closest_candidate p cs (c + 1) closest match_index)"

text \<open>\<^verbatim>\<open>std::swap(v[i], v.back()); v.pop_back();\<close>\<close>

definition swap_pop :: "nat \<Rightarrow> 'a list \<Rightarrow> 'a list" where
  "swap_pop i xs = butlast (xs[i := last xs])"

text \<open>
  The loop ``Attempt to match the candidates with tracked fingertips''. After a match the
  entry at \<open>m\<close> is replaced by the last one and \<open>m\<close> is visited again (\<^verbatim>\<open>m--\<close>, then \<^verbatim>\<open>m++\<close>).
\<close>

function match_loop ::
  "nat \<Rightarrow> (fingertip \<times> int) list \<Rightarrow> candidate list \<Rightarrow> fingertip list
     \<Rightarrow> (fingertip \<times> int) list \<times> candidate list \<times> fingertip list" where
  "match_loop m memory cands fingertips =
     (if m < length memory then
        (let finger = fst (memory ! m);
             match_index = closest_candidate (point finger) cands 0
                             (MAX_TRACKING_RANGE * MAX_TRACKING_RANGE) (- 1)
         in if 0 \<le> match_index then
              (let cand = cands ! nat match_index
               in match_loop m (swap_pop m memory) (swap_pop (nat match_index) cands)
                    (fingertips @ [\<lparr>point = fst cand, com = snd cand, age = age finger + 1,
                                    finger_id = finger_id finger\<rparr>]))
            else match_loop (m + 1) memory cands fingertips)
      else (memory, cands, fingertips))"
  by pat_completeness auto
termination
  by (relation "measure (\<lambda>(m, memory, cands, fingertips). length memory - m)")
     (auto simp: swap_pop_def)

text \<open>The loop ``Add remaining candidates as fingers'' with \<^verbatim>\<open>m_NextID++\<close>.\<close>

fun add_remaining ::
  "candidate list \<Rightarrow> 64 word \<Rightarrow> fingertip list \<Rightarrow> fingertip list \<times> 64 word" where
  "add_remaining [] next_id fingertips = (fingertips, next_id)"
| "add_remaining (cand # cs) next_id fingertips =
     add_remaining cs (next_id + 1)
       (fingertips @ [\<lparr>point = fst cand, com = snd cand, age = 1, finger_id = next_id\<rparr>])"

text \<open>\<^verbatim>\<open>FingerTracker::update_tracking_memory\<close>: the decay loop, then the new entries.\<close>

function decay_loop :: "nat \<Rightarrow> (fingertip \<times> int) list \<Rightarrow> (fingertip \<times> int) list" where
  "decay_loop m memory =
     (if m < length memory then
        (let life = snd (memory ! m) - 1;
             memory' = memory[m := (fst (memory ! m), life)]
         in if life \<le> 0 then decay_loop m (swap_pop m memory')
            else decay_loop (m + 1) memory')
      else memory)"
  by pat_completeness auto
termination
  by (relation "measure (\<lambda>(m, memory). length memory - m)") (auto simp: swap_pop_def)

definition update_tracking_memory ::
  "fingertip list \<Rightarrow> (fingertip \<times> int) list \<Rightarrow> (fingertip \<times> int) list" where
  "update_tracking_memory fingertips memory =
     decay_loop 0 memory @ map (\<lambda>finger. (finger, MAX_TRACKING_LIFE)) fingertips"

text \<open>The part of \<^verbatim>\<open>detect\<close> after the contour loop, from the candidates on.\<close>

definition track :: "candidate list \<Rightarrow> finger_tracker \<Rightarrow> fingertip list \<times> finger_tracker" where
  "track cands t =
     (case match_loop 0 (m_TrackingMemory t) cands [] of
        (memory, rest, matched) \<Rightarrow>
          (case add_remaining rest (m_NextID t) matched of
             (fingertips, next_id) \<Rightarrow>
               (fingertips,
                t\<lparr>m_NextID := next_id,
                  m_TrackingMemory := update_tracking_memory fingertips memory\<rparr>)))"

text \<open>
  \<^verbatim>\<open>FingerTracker::detect\<close>. \<open>find_contours\<close> stands for the foreground mask under
  \<^verbatim>\<open>cv::findContours(mask(m_TrackingRegion), ...)\<close> and the per-contour OpenCV results:
  it maps the region searched to the contours found there.
\<close>

definition detect ::
  "cv_size \<Rightarrow> (cv_rect \<Rightarrow> contour_input list) \<Rightarrow> finger_tracker
     \<Rightarrow> (fingertip list \<times> finger_tracker) option" where
  "detect mask_size find_contours t =
     (let t1 = update_tracking_region mask_size t
      in case find_candidates (m_TrackingRegion t1) (find_contours (m_TrackingRegion t1)) [] of
           None \<Rightarrow> None
         | Some cands \<Rightarrow> Some (track cands t1))"


subsection \<open>Initial state and the full frame\<close>

text \<open>
  The tracker as constructed: \<^verbatim>\<open>FingerTracker()\<close> leaves the default member values (an
  empty rectangle, \<^verbatim>\<open>m_TrackingResetTimer = 0\<close>, \<^verbatim>\<open>m_NextID = 0\<close>). \<open>full_frame\<close>
  is the region \<^verbatim>\<open>detect\<close> resets to.
\<close>

definition FingerTracker :: finger_tracker where
  "FingerTracker =
     \<lparr>m_TrackingRegion = \<lparr>rect_x = 0, rect_y = 0, rect_width = 0, rect_height = 0\<rparr>,
      m_TrackingResetTimer = 0, m_NextID = 0, m_TrackingMemory = []\<rparr>"

definition full_frame :: "cv_size \<Rightarrow> cv_rect" where
  "full_frame mask_size =
     \<lparr>rect_x = 0, rect_y = 0, rect_width = fst mask_size, rect_height = snd mask_size\<rparr>"

subsection \<open>A single cluster of hull points\<close>

text \<open>
  The hull points, in the order the loop visits them, form a single cluster: each one is
  within squared distance \<^verbatim>\<open>NONMAX_PROXIMIITY\<close> of the one before it.
\<close>

fun single_cluster :: "cv_point list \<Rightarrow> int list \<Rightarrow> bool" where
  "single_cluster c (i # j # rest) =
     ((case (contour_at c j, contour_at c i) of
         (Some p, Some q) \<Rightarrow> pt_dot (pt_sub p q) (pt_sub p q) \<le> NONMAX_PROXIMIITY
       | _ \<Rightarrow> False)
      \<and> single_cluster c (j # rest))"
| "single_cluster c [i] = True"
| "single_cluster c [] = True"

subsection \<open>Two foreground shapes\<close>

text \<open>
  A finger entering the 640 by 480 frame from its left border: a bar of 23 rows
  (\<open>229 \<le> y \<le> 251\<close>) from \<open>x = 0\<close> with a round tip of radius 11 at \<open>(89, 240)\<close>.
  The contour is its boundary, 8-connected, counter-clockwise on the screen from
  \<open>(0, 229)\<close>; the hull runs the other way round, as \<^verbatim>\<open>cv::convexHull\<close> orients it.
  The scores are those of the source's arc test on this contour.
\<close>

definition finger_contour :: "cv_point list" where
  "finger_contour =
    [(0, 229), (0, 230), (0, 231), (0, 232), (0, 233), (0, 234), (0, 235), (0, 236),
     (0, 237), (0, 238), (0, 239), (0, 240), (0, 241), (0, 242), (0, 243), (0, 244),
     (0, 245), (0, 246), (0, 247), (0, 248), (0, 249), (0, 250), (0, 251), (1, 251),
     (2, 251), (3, 251), (4, 251), (5, 251), (6, 251), (7, 251), (8, 251), (9, 251),
     (10, 251), (11, 251), (12, 251), (13, 251), (14, 251), (15, 251), (16, 251),
     (17, 251), (18, 251), (19, 251), (20, 251), (21, 251), (22, 251), (23, 251),
     (24, 251), (25, 251), (26, 251), (27, 251), (28, 251), (29, 251), (30, 251),
     (31, 251), (32, 251), (33, 251), (34, 251), (35, 251), (36, 251), (37, 251),
     (38, 251), (39, 251), (40, 251), (41, 251), (42, 251), (43, 251), (44, 251),
     (45, 251), (46, 251), (47, 251), (48, 251), (49, 251), (50, 251), (51, 251),
     (52, 251), (53, 251), (54, 251), (55, 251), (56, 251), (57, 251), (58, 251),
     (59, 251), (60, 251), (61, 251), (62, 251), (63, 251), (64, 251), (65, 251),
     (66, 251), (67, 251), (68, 251), (69, 251), (70, 251), (71, 251), (72, 251),
     (73, 251), (74, 251), (75, 251), (76, 251), (77, 251), (78, 251), (79, 251),
     (80, 251), (81, 251), (82, 251), (83, 251), (84, 251), (85, 251), (86, 251),
     (87, 251), (88, 251), (89, 251), (90, 250), (91, 250), (92, 250), (93, 250),
     (94, 249), (95, 249), (96, 248), (97, 247), (98, 246), (98, 245), (99, 244),
     (99, 243), (99, 242), (99, 241), (100, 240), (99, 239), (99, 238), (99, 237),
     (99, 236), (98, 235), (98, 234), (97, 233), (96, 232), (95, 231), (94, 231),
     (93, 230), (92, 230), (91, 230), (90, 230), (89, 229), (88, 229), (87, 229),
     (86, 229), (85, 229), (84, 229), (83, 229), (82, 229), (81, 229), (80, 229),
     (79, 229), (78, 229), (77, 229), (76, 229), (75, 229), (74, 229), (73, 229),
     (72, 229), (71, 229), (70, 229), (69, 229), (68, 229), (67, 229), (66, 229),
     (65, 229), (64, 229), (63, 229), (62, 229), (61, 229), (60, 229), (59, 229),
     (58, 229), (57, 229), (56, 229), (55, 229), (54, 229), (53, 229), (52, 229),
     (51, 229), (50, 229), (49, 229), (48, 229), (47, 229), (46, 229), (45, 229),
     (44, 229), (43, 229), (42, 229), (41, 229), (40, 229), (39, 229), (38, 229),
     (37, 229), (36, 229), (35, 229), (34, 229), (33, 229), (32, 229), (31, 229),
     (30, 229), (29, 229), (28, 229), (27, 229), (26, 229), (25, 229), (24, 229),
     (23, 229), (22, 229), (21, 229), (20, 229), (19, 229), (18, 229), (17, 229),
     (16, 229), (15, 229), (14, 229), (13, 229), (12, 229), (11, 229), (10, 229), (9, 229),
     (8, 229), (7, 229), (6, 229), (5, 229), (4, 229), (3, 229), (2, 229), (1, 229)]"

definition finger_scores :: "int list" where
  "finger_scores =
    [0, 0, 0, 0, 0, 0, 0, 0, 0, 0, 0, 0, 0, 0, 0, 0, 0, 0, 0, 0, 0, 0, 0, 0, 0, 0, 0, 0, 0,
     0, 0, 0, 0, 0, 0, 0, 0, 0, 0, 0, 0, 0, 0, 0, 0, 0, 0, 0, 0, 0, 0, 0, 0, 0, 0, 0, 0, 0,
     0, 0, 0, 0, 0, 0, 0, 0, 0, 0, 0, 0, 0, 0, 0, 0, 0, 0, 0, 0, 0, 0, 0, 0, 0, 0, 0, 0, 0,
     0, 0, 0, 0, 0, 0, 0, 0, 0, 0, 0, 0, 0, 0, 0, 0, 0, 0, 0, 0, 0, 36, 36, 84, 85, 0, 0,
     88, 89, 90, 91, 92, 93, 94, 95, 96, 97, 98, 99, 100, 99, 98, 97, 96, 95, 94, 93, 92,
     91, 90, 89, 88, 0, 0, 85, 84, 36, 36, 0, 0, 0, 0, 0, 0, 0, 0, 0, 0, 0, 0, 0, 0, 0, 0,
     0, 0, 0, 0, 0, 0, 0, 0, 0, 0, 0, 0, 0, 0, 0, 0, 0, 0, 0, 0, 0, 0, 0, 0, 0, 0, 0, 0, 0,
     0, 0, 0, 0, 0, 0, 0, 0, 0, 0, 0, 0, 0, 0, 0, 0, 0, 0, 0, 0, 0, 0, 0, 0, 0, 0, 0, 0, 0,
     0, 0, 0, 0, 0, 0, 0, 0, 0, 0, 0]"

definition finger_blob :: contour_input where
  "finger_blob =
     \<lparr>contour = finger_contour, area = 2131,
      extremities =
        [0, 141, 137, 135, 132, 130, 126, 122, 120, 117, 115, 111, 22],
      arc_score = (\<lambda>i. finger_scores ! nat i)\<rparr>"

text \<open>
  A filled disc of radius 22 about \<open>(320, 240)\<close>, away from the border of the frame:
  its boundary, its convex hull (36 points, the largest squared distance between
  neighbours is 37) and the scores of the source's arc test, 55 at every hull point.
\<close>

definition disc_contour :: "cv_point list" where
  "disc_contour =
    [(320, 218), (319, 219), (318, 219), (317, 219), (316, 219), (315, 219), (314, 219),
     (313, 220), (312, 220), (311, 220), (310, 221), (309, 221), (308, 222), (307, 223),
     (306, 224), (305, 224), (304, 225), (304, 226), (303, 227), (302, 228), (301, 229),
     (301, 230), (300, 231), (300, 232), (300, 233), (299, 234), (299, 235), (299, 236),
     (299, 237), (299, 238), (299, 239), (298, 240), (299, 241), (299, 242), (299, 243),
     (299, 244), (299, 245), (299, 246), (300, 247), (300, 248), (300, 249), (301, 250),
     (301, 251), (302, 252), (303, 253), (304, 254), (304, 255), (305, 256), (306, 256),
     (307, 257), (308, 258), (309, 259), (310, 259), (311, 260), (312, 260), (313, 260),
     (314, 261), (315, 261), (316, 261), (317, 261), (318, 261), (319, 261), (320, 262),
     (321, 261), (322, 261), (323, 261), (324, 261), (325, 261), (326, 261), (327, 260),
     (328, 260), (329, 260), (330, 259), (331, 259), (332, 258), (333, 257), (334, 256),
     (335, 256), (336, 255), (336, 254), (337, 253), (338, 252), (339, 251), (339, 250),
     (340, 249), (340, 248), (340, 247), (341, 246), (341, 245), (341, 244), (341, 243),
     (341, 242), (341, 241), (342, 240), (341, 239), (341, 238), (341, 237), (341, 236),
     (341, 235), (341, 234), (340, 233), (340, 232), (340, 231), (339, 230), (339, 229),
     (338, 228), (337, 227), (336, 226), (336, 225), (335, 224), (334, 224), (333, 223),
     (332, 222), (331, 221), (330, 221), (329, 220), (328, 220), (327, 220), (326, 219),
     (325, 219), (324, 219), (323, 219), (322, 219), (321, 219)]"

definition disc_scores :: "int list" where
  "disc_scores =
    [55, 0, 0, 55, 0, 55, 55, 0, 55, 55, 55, 55, 55, 55, 55, 55, 55, 55, 55, 55, 55, 55,
     55, 55, 0, 55, 55, 0, 55, 0, 0, 55, 0, 0, 55, 0, 55, 55, 0, 55, 55, 55, 55, 55, 55,
     55, 55, 55, 55, 55, 55, 55, 55, 55, 55, 0, 55, 55, 0, 55, 0, 0, 55, 0, 0, 55, 0, 55,
     55, 0, 55, 55, 55, 55, 55, 55, 55, 55, 55, 55, 55, 55, 55, 55, 55, 55, 0, 55, 55, 0,
     55, 0, 0, 55, 0, 0, 55, 0, 55, 55, 0, 55, 55, 55, 55, 55, 55, 55, 55, 55, 55, 55, 55,
     55, 55, 55, 55, 0, 55, 55, 0, 55, 0, 0]"

definition disc_blob :: contour_input where
  "disc_blob =
     \<lparr>contour = disc_contour, area = 1454,
      extremities =
        [0, 118, 115, 113, 109, 108, 104, 102, 99, 93, 87, 84, 82, 78, 77, 73, 71, 68, 62, 56, 53, 51, 47, 46, 42, 40, 37, 31, 25, 22, 20, 16, 15, 11, 9, 6],
      arc_score = (\<lambda>i. disc_scores ! nat i)\<rparr>"

section \<open>Single-precision arithmetic\<close>

text \<open>
  The sources compute in \<^verbatim>\<open>float\<close>, IEEE 754 binary32 on the target. A \<^verbatim>\<open>float\<close> is
  modelled by the rational number it denotes and each arithmetic operation by the exact
  operation followed by \<open>fl32\<close>, rounding to the nearest binary32 value with ties to
  the even significand (24 bits, subnormal below \<open>2\<^sup>-\<^sup>1\<^sup>2\<^sup>6\<close>). Infinities and NaN are not
  values of the model: above the binary32 range \<open>fl32\<close> keeps rounding to 24 bits.
\<close>

definition round_ties_even :: "rat \<Rightarrow> int" where
  "round_ties_even y =
     (let f = \<lfloor>y\<rfloor>; d = y - of_int f
      in if d < 1 / 2 then f else if 1 / 2 < d then f + 1 else if even f then f else f + 1)"

text \<open>
  The binary exponent of a positive rational \<open>p / q\<close>, from the bit lengths of \<open>p\<close> and
  \<open>q\<close>: the \<open>e\<close> with \<open>2\<^sup>e \<le> x < 2\<^sup>e\<^sup>+\<^sup>1\<close>, and not below the smallest normal exponent.
\<close>

definition f32_exponent :: "rat \<Rightarrow> int" where
  "f32_exponent x =
     (case quotient_of x of
        (p, q) \<Rightarrow>
          (let e0 = bitlen p - bitlen q
           in max (- 126) (if 2 powi e0 \<le> x then e0 else e0 - 1)))"

definition fl32 :: "rat \<Rightarrow> rat" where
  "fl32 x =
     (if x = 0 then 0
      else let ulp = 2 powi (f32_exponent \<bar>x\<bar> - 23)
           in sgn x * of_int (round_ties_even (\<bar>x\<bar> / ulp)) * ulp)"

text \<open>\<^verbatim>\<open>static_cast<int>\<close> of a \<^verbatim>\<open>float\<close>: truncation towards zero.\<close>

definition trunc_int :: "rat \<Rightarrow> int" where
  "trunc_int v = (if 0 \<le> v then \<lfloor>v\<rfloor> else \<lceil>v\<rceil>)"

section \<open>Photometric prediction\<close>

text \<open>
  \<^verbatim>\<open>cv::Vec3f\<close> and its operators. In OpenCV the product of a vector and a \<^verbatim>\<open>float\<close>
  rounds each component's product. The quotient of a vector by a \<^verbatim>\<open>float\<close> is a
  library operator outside these sources: it either multiplies by the rounded reciprocal
  (\<^verbatim>\<open>1.f / alpha\<close>, as OpenCV's \<^verbatim>\<open>matx.hpp\<close> does) or divides each component; the model
  takes the reading as a parameter and the properties below hold for both.
\<close>

type_synonym vec3f = "rat \<times> rat \<times> rat"

datatype vec_div = Times_reciprocal | Quotient

definition scalar_div :: "vec_div \<Rightarrow> rat \<Rightarrow> rat \<Rightarrow> rat" where
  "scalar_div dv a alpha =
     (case dv of Times_reciprocal \<Rightarrow> fl32 (a * fl32 (1 / alpha)) | Quotient \<Rightarrow> fl32 (a / alpha))"

definition vec_div_f :: "vec_div \<Rightarrow> vec3f \<Rightarrow> rat \<Rightarrow> vec3f" where
  "vec_div_f dv v alpha =
     (case v of (a, b, c) \<Rightarrow> (scalar_div dv a alpha, scalar_div dv b alpha, scalar_div dv c alpha))"

definition vec_mul_f :: "vec3f \<Rightarrow> rat \<Rightarrow> vec3f" where
  "vec_mul_f v alpha = (case v of (a, b, c) \<Rightarrow> (fl32 (a * alpha), fl32 (b * alpha), fl32 (c * alpha)))"

definition vec_add :: "vec3f \<Rightarrow> vec3f \<Rightarrow> vec3f" where
  "vec_add v w = (case (v, w) of ((a, b, c), (a', b', c')) \<Rightarrow> (fl32 (a + a'), fl32 (b + b'), fl32 (c + c')))"

definition vec_sub :: "vec3f \<Rightarrow> vec3f \<Rightarrow> vec3f" where
  "vec_sub v w = (case (v, w) of ((a, b, c), (a', b', c')) \<Rightarrow> (fl32 (a - a'), fl32 (b - b'), fl32 (c - c')))"

text \<open>\<^verbatim>\<open>lerp\<close>, \<^verbatim>\<open>blerp\<close> and \<^verbatim>\<open>tlerp\<close> of \<^verbatim>\<open>Common.hpp\<close>, at \<^verbatim>\<open>cv::Vec3f\<close>.\<close>

definition lerp :: "vec3f \<Rightarrow> vec3f \<Rightarrow> rat \<Rightarrow> vec3f" where
  "lerp v0 v1 x = vec_add (vec_mul_f v0 (fl32 (1 - x))) (vec_mul_f v1 x)"

definition blerp :: "vec3f \<Rightarrow> vec3f \<Rightarrow> vec3f \<Rightarrow> vec3f \<Rightarrow> rat \<Rightarrow> rat \<Rightarrow> vec3f" where
  "blerp v00 v01 v11 v10 x y = lerp (lerp v00 v10 x) (lerp v01 v11 x) y"

definition tlerp ::
  "vec3f \<Rightarrow> vec3f \<Rightarrow> vec3f \<Rightarrow> vec3f \<Rightarrow> vec3f \<Rightarrow> vec3f \<Rightarrow> vec3f \<Rightarrow> vec3f
     \<Rightarrow> rat \<Rightarrow> rat \<Rightarrow> rat \<Rightarrow> vec3f" where
  "tlerp v000 v010 v110 v100 v001 v011 v111 v101 x y z =
     lerp (blerp v000 v010 v110 v100 x y) (blerp v001 v011 v111 v101 x y) z"

text \<open>\<^verbatim>\<open>xyz_to_3d_index\<close>, and the constants of the colour map.\<close>

definition xyz_to_3d_index :: "int \<Rightarrow> int \<Rightarrow> int \<Rightarrow> int \<Rightarrow> int" where
  "xyz_to_3d_index x y z sz = (z * sz + y) * sz + x"

definition CMAP_SIZE :: int where
  "CMAP_SIZE = 8"

definition CMAP_STEP :: rat where
  "CMAP_STEP = fl32 (1 / fl32 (of_int CMAP_SIZE - 1))"

text \<open>
  \<^verbatim>\<open>m_ColourMap\<close> is a \<^verbatim>\<open>std::array\<close> of \<open>8 * 8 * 8\<close> vectors, modelled by its entries
  \<open>cmap 0, ..., cmap 511\<close>. Its \<^verbatim>\<open>operator[]\<close> is unchecked: an index outside the array is
  undefined behaviour, \<open>None\<close> in the model.
\<close>

definition colour_map_at :: "(nat \<Rightarrow> vec3f) \<Rightarrow> int \<Rightarrow> vec3f option" where
  "colour_map_at cmap i =
     (if 0 \<le> i \<and> i < CMAP_SIZE * CMAP_SIZE * CMAP_SIZE then Some (cmap (nat i)) else None)"

text \<open>
  The body of the \<^verbatim>\<open>forEach\<close> in \<^verbatim>\<open>ViewCalibrator::predict\<close>, for one pixel
  \<open>colour\<close> (three 8-bit channels) with the reflectance of its position.
\<close>

definition norm_col :: "vec_div \<Rightarrow> 8 word \<times> 8 word \<times> 8 word \<Rightarrow> vec3f" where
  "norm_col dv colour =
     (case colour of (b, g, r) \<Rightarrow>
        vec_div_f dv (of_nat (unat b), of_nat (unat g), of_nat (unat r)) 255)"

definition cube_index :: "rat \<Rightarrow> int" where
  "cube_index n = trunc_int (fl32 (n / CMAP_STEP))"

definition predict_pixel ::
  "vec_div \<Rightarrow> (nat \<Rightarrow> vec3f) \<Rightarrow> vec3f \<Rightarrow> 8 word \<times> 8 word \<times> 8 word \<Rightarrow> vec3f option" where
  "predict_pixel dv cmap reflectance colour =
     (case norm_col dv colour of (n0, n1, n2) \<Rightarrow>
        (let x = cube_index n0; y = cube_index n1; z = cube_index n2;
             sub_coord = vec_mul_f (of_int x, of_int y, of_int z) CMAP_STEP;
             tlerp_factors = vec_div_f dv (vec_sub (n0, n1, n2) sub_coord) CMAP_STEP
         in case (colour_map_at cmap (xyz_to_3d_index x y z CMAP_SIZE),
                  colour_map_at cmap (xyz_to_3d_index x (y + 1) z CMAP_SIZE),
                  colour_map_at cmap (xyz_to_3d_index (x + 1) (y + 1) z CMAP_SIZE),
                  colour_map_at cmap (xyz_to_3d_index (x + 1) y z CMAP_SIZE),
                  colour_map_at cmap (xyz_to_3d_index x y (z + 1) CMAP_SIZE),
                  colour_map_at cmap (xyz_to_3d_index x (y + 1) (z + 1) CMAP_SIZE),
                  colour_map_at cmap (xyz_to_3d_index (x + 1) (y + 1) (z + 1) CMAP_SIZE),
                  colour_map_at cmap (xyz_to_3d_index (x + 1) y (z + 1) CMAP_SIZE)) of
              (Some v000, Some v010, Some v110, Some v100,
               Some v001, Some v011, Some v111, Some v101) \<Rightarrow>
                (case (tlerp v000 v010 v110 v100 v001 v011 v111 v101
                         (fst tlerp_factors) (fst (snd tlerp_factors)) (snd (snd tlerp_factors)),
                       reflectance) of
                   ((p0, p1, p2), (r0, r1, r2)) \<Rightarrow>
                     Some (fl32 (p0 * r0), fl32 (p1 * r1), fl32 (p2 * r2)))
            | _ \<Rightarrow> None))"

text \<open>
  Images as \<^verbatim>\<open>cv::Mat\<close>: the size and the entry at each row and column.
  \<^verbatim>\<open>ViewCalibrator::predict\<close> reads \<^verbatim>\<open>m_ReflectanceMap.at(row, col)\<close> at every position
  of the source image: outside the reflectance map that is undefined behaviour.
\<close>

record 'a mat =
  mat_rows :: nat
  mat_cols :: nat
  mat_at :: "nat \<Rightarrow> nat \<Rightarrow> 'a"

definition mat_positions :: "'a mat \<Rightarrow> (nat \<times> nat) list" where
  "mat_positions m = concat (map (\<lambda>r. map (\<lambda>c. (r, c)) [0..<mat_cols m]) [0..<mat_rows m])"

definition predict ::
  "vec_div \<Rightarrow> (nat \<Rightarrow> vec3f) \<Rightarrow> vec3f mat \<Rightarrow> (8 word \<times> 8 word \<times> 8 word) mat
     \<Rightarrow> vec3f mat option" where
  "predict dv cmap reflectance_map src =
     (if mat_rows reflectance_map < mat_rows src \<or> mat_cols reflectance_map < mat_cols src
      then None
      else if list_all (\<lambda>(r, c). predict_pixel dv cmap (mat_at reflectance_map r c)
                                    (mat_at src r c) \<noteq> None) (mat_positions src)
      then Some \<lparr>mat_rows = mat_rows src, mat_cols = mat_cols src,
                 mat_at = (\<lambda>r c. the (predict_pixel dv cmap (mat_at reflectance_map r c)
                                          (mat_at src r c)))\<rparr>
      else None)"

section \<open>Touch decider: the touch test\<close>

text \<open>
  \<^verbatim>\<open>cv::norm(com - point)\<close> is the square root, in double precision, of the integer
  \<open>dx\<^sup>2 + dy\<^sup>2\<close>; adding 7 and converting to \<^verbatim>\<open>int\<close> truncates. For pixel coordinates the
  truncated root is the integer square root, computed here by search from above.
\<close>

primrec sqrt_search :: "nat \<Rightarrow> nat \<Rightarrow> nat" where
  "sqrt_search n 0 = 0"
| "sqrt_search n (Suc k) = (if Suc k * Suc k \<le> n then Suc k else sqrt_search n k)"

definition isqrt :: "nat \<Rightarrow> nat" where
  "isqrt n = sqrt_search n n"

definition norm_floor :: "cv_point \<Rightarrow> int" where
  "norm_floor v = int (isqrt (nat (pt_dot v v)))"

text \<open>
  Failed assertions raise \<^verbatim>\<open>cv::Exception\<close>: \<open>Roi_assertion\<close> for a rectangle outside
  its matrix, \<open>Assertion_failed\<close> for a \<^verbatim>\<open>CV_Assert\<close> of the sources or a size mismatch
  between two matrices.
\<close>

datatype error = Roi_assertion | Assertion_failed

text \<open>
  \<^verbatim>\<open>mask(roi)\<close> asserts that the rectangle lies inside the matrix and raises
  \<^verbatim>\<open>cv::Exception\<close> otherwise; \<^verbatim>\<open>cv::countNonZero\<close> counts the non-zero entries of the
  sub-matrix. A mask is a matrix of 8-bit entries, addressed by row and column.
\<close>

definition roi_inside :: "'a mat \<Rightarrow> cv_rect \<Rightarrow> bool" where
  "roi_inside m roi \<longleftrightarrow>
     0 \<le> rect_x roi \<and> 0 \<le> rect_width roi \<and> rect_x roi + rect_width roi \<le> int (mat_cols m)
     \<and> 0 \<le> rect_y roi \<and> 0 \<le> rect_height roi \<and> rect_y roi + rect_height roi \<le> int (mat_rows m)"

definition countNonZero :: "8 word mat \<Rightarrow> cv_rect \<Rightarrow> nat" where
  "countNonZero m roi =
     length (filter (\<lambda>(y, x). mat_at m (nat y) (nat x) \<noteq> 0)
       (List.product [rect_y roi..rect_y roi + rect_height roi - 1]
                     [rect_x roi..rect_x roi + rect_width roi - 1]))"

text \<open>
  The comparison \<^verbatim>\<open>ratio <= static_cast<float>(thresh) / 100.0f\<close>, where \<^verbatim>\<open>ratio\<close> is the
  single-precision quotient of the two counts. With \<open>foreground = 0\<close> the quotient is
  \<open>+\<infinity>\<close> or NaN, for which every such comparison is false.
\<close>

definition ratio_le :: "nat \<Rightarrow> nat \<Rightarrow> int \<Rightarrow> bool" where
  "ratio_le shadow foreground thresh \<longleftrightarrow>
     foreground \<noteq> 0
     \<and> fl32 (fl32 (of_nat shadow) / fl32 (of_nat foreground))
         \<le> fl32 (fl32 (of_int thresh) / fl32 100)"

text \<open>
  \<^verbatim>\<open>find_touch_action\<close>. \<open>last_fingertip\<close> is the function's \<^verbatim>\<open>thread_local\<close> variable,
  passed in and returned; the result is the optional \<open>(point, touch)\<close>. The debug window
  (\<^verbatim>\<open>show_ratio_patch\<close>) is compiled out, so the thresholds are 20 and 30.
\<close>

definition find_touch_action ::
  "fingertip list \<Rightarrow> 8 word mat \<Rightarrow> 8 word mat \<Rightarrow> fingertip
     \<Rightarrow> error + ((cv_point \<times> bool) option \<times> fingertip)" where
  "find_touch_action fingertips foreground_mask shadow_mask last_fingertip =
     (case chosen_fingertip (finger_id last_fingertip) fingertips of
        None \<Rightarrow> Inr (None, last_fingertip)
      | Some chosen \<Rightarrow>
          (let pt = point chosen; cm = com chosen;
               radius = norm_floor (pt_sub cm pt) + 7;
               roi = Rect (max (fst cm - radius) 0, max (snd cm - radius) 0)
                          (min (fst cm + radius) (int (mat_cols shadow_mask) - 2),
                           min (snd cm + radius) (int (mat_rows shadow_mask) - 2))
           in if \<not> (roi_inside shadow_mask roi \<and> roi_inside foreground_mask roi)
              then Inl Roi_assertion
              else (let shadow = countNonZero shadow_mask roi;
                        foreground = countNonZero foreground_mask roi
                    in if ratio_le shadow foreground 20 then Inr (Some (pt, True), chosen)
                       else if ratio_le shadow foreground 30 then Inr (Some (pt, False), chosen)
                       else Inr (None, chosen))))"

text \<open>\<^verbatim>\<open>last_fingertip\<close> before the first call: a value-initialised \<^verbatim>\<open>Fingertip\<close>.\<close>

definition no_fingertip :: fingertip where
  "no_fingertip = \<lparr>point = (0, 0), com = (0, 0), age = 0, finger_id = 0\<rparr>"

subsection \<open>The touch test as the specification words it\<close>

text \<open>
  The region and decision in the specification's words, for comparison with
  \<open>find_touch_action\<close>: the square of side \<open>2 r\<close> about the centre of mass, clipped to
  the frame \<open>[0, cols) \<times> [0, rows)\<close>, with \<open>\<rho>\<close> the exact quotient of the two counts.
\<close>

definition spec_roi :: "nat \<Rightarrow> nat \<Rightarrow> cv_point \<Rightarrow> int \<Rightarrow> cv_rect" where
  "spec_roi cols rows cm r =
     Rect (max (fst cm - r) 0, max (snd cm - r) 0)
          (min (fst cm + r) (int cols), min (snd cm + r) (int rows))"

definition spec_touch_decision ::
  "fingertip \<Rightarrow> 8 word mat \<Rightarrow> 8 word mat \<Rightarrow> (cv_point \<times> bool) option" where
  "spec_touch_decision chosen foreground_mask shadow_mask =
     (let r = norm_floor (pt_sub (com chosen) (point chosen)) + 7;
          roi = spec_roi (mat_cols shadow_mask) (mat_rows shadow_mask) (com chosen) r;
          rho = (of_nat (countNonZero shadow_mask roi) :: rat)
                  / of_nat (countNonZero foreground_mask roi)
      in if rho \<le> 20 / 100 then Some (point chosen, True)
         else if rho \<le> 30 / 100 then Some (point chosen, False)
         else None)"

text \<open>
  A finger entering a 40 by 40 frame from the right border, rows 18 to 22 and columns 30 to
  39, with its shadow showing in columns 37 to 39.
\<close>

definition bar_foreground :: "8 word mat" where
  "bar_foreground =
     \<lparr>mat_rows = 40, mat_cols = 40,
      mat_at = (\<lambda>r c. if 18 \<le> r \<and> r \<le> 22 \<and> 30 \<le> c \<and> c \<le> 39 then 255 else 0)\<rparr>"

definition bar_shadow :: "8 word mat" where
  "bar_shadow =
     \<lparr>mat_rows = 40, mat_cols = 40,
      mat_at = (\<lambda>r c. if 18 \<le> r \<and> r \<le> 22 \<and> 37 \<le> c \<and> c \<le> 39 then 255 else 0)\<rparr>"

definition bar_finger :: fingertip where
  "bar_finger = \<lparr>point = (30, 20), com = (33, 20), age = 6, finger_id = 1\<rparr>"

section \<open>Calibration capture\<close>

text \<open>
  An image is the list of its 8-bit channel values. The webcam delivers the frames
  \<open>m_Stream 0, m_Stream 1, ...\<close> in this order; \<open>consumed\<close> counts the frames taken from the
  stream so far, \<open>frame_size\<close> is the number of channel values of a frame
  (\<^verbatim>\<open>webcam.height * webcam.width * 3\<close>). The end of the stream is not modelled. The
  display and the camera are driven in an order that \<open>events\<close> records.
\<close>

type_synonym image = "8 word list"

datatype event = Imshow image | Sleep_for int | Drop_frame | Next_frame

record webcam =
  m_Stream :: "nat \<Rightarrow> image"
  consumed :: nat
  frame_size :: nat
  events :: "event list"

text \<open>\<^verbatim>\<open>Webcam::drop_frame\<close> (a \<^verbatim>\<open>grab\<close>) and \<^verbatim>\<open>Webcam::next_frame\<close> (a \<^verbatim>\<open>read\<close>).\<close>

definition drop_frame :: "webcam \<Rightarrow> webcam" where
  "drop_frame w = w\<lparr>consumed := consumed w + 1, events := events w @ [Drop_frame]\<rparr>"

definition next_frame :: "webcam \<Rightarrow> image \<times> webcam" where
  "next_frame w =
     (m_Stream w (consumed w), w\<lparr>consumed := consumed w + 1, events := events w @ [Next_frame]\<rparr>)"

text \<open>
  \<^verbatim>\<open>average.convertTo(dst, CV_8UC3)\<close>: OpenCV rounds a double to the nearest integer, ties
  to even, and saturates to \<open>0..255\<close>. The quotient of the accumulated sum and the number of
  samples is taken exactly.
\<close>

definition saturate_cast :: "rat \<Rightarrow> 8 word" where
  "saturate_cast v = word_of_int (max 0 (min 255 (round_ties_even v)))"

text \<open>
  The loop ``Average out multiple captures'': \<open>n\<close> iterations of \<^verbatim>\<open>next_frame\<close> and
  \<^verbatim>\<open>cv::accumulate\<close>, which asserts that the frame has the size of \<open>average\<close>.
\<close>

primrec average_loop :: "nat \<Rightarrow> int list \<Rightarrow> webcam \<Rightarrow> error + (int list \<times> webcam)" where
  "average_loop 0 average w = Inr (average, w)"
| "average_loop (Suc n) average w =
     (case next_frame w of
        (dst, w') \<Rightarrow>
          if length dst \<noteq> length average then Inl Assertion_failed
          else average_loop n (map2 (\<lambda>a p. a + int (unat p)) average dst) w')"

text \<open>
  \<^verbatim>\<open>Calibrator::capture_image\<close>. The window calls and the sleep are recorded as events;
  the three \<^verbatim>\<open>drop_frame\<close> calls are followed by three \<^verbatim>\<open>next_frame(dst)\<close> calls, each
  overwriting \<open>dst\<close>, before the samples are taken.
\<close>

definition capture_image :: "webcam \<Rightarrow> image \<Rightarrow> int \<Rightarrow> int \<Rightarrow> error + (image \<times> webcam)" where
  "capture_image w pattern settle_time_ms capture_samples =
     (if settle_time_ms < 0 \<or> capture_samples < 1 then Inl Assertion_failed
      else
        (let w1 = w\<lparr>events := events w @ [Imshow pattern, Sleep_for settle_time_ms]\<rparr>;
             w2 = drop_frame (drop_frame (drop_frame w1));
             w3 = snd (next_frame w2);
             w4 = snd (next_frame w3);
             dst = fst (next_frame w4);
             w5 = snd (next_frame w4)
         in if 1 < capture_samples then
              (case average_loop (nat capture_samples) (replicate (frame_size w5) 0) w5 of
                 Inl e \<Rightarrow> Inl e
               | Inr (average, w6) \<Rightarrow>
                   Inr (map (\<lambda>s. saturate_cast (of_int s / of_int capture_samples)) average, w6))
            else Inr (dst, w5)))"

subsection \<open>The capture as the specification words it\<close>

text \<open>
  Discard the next 3 frames, read \<open>n\<close> frames, return their pixelwise mean cast to 8-bit.
\<close>

definition spec_capture_image :: "webcam \<Rightarrow> nat \<Rightarrow> image" where
  "spec_capture_image w n =
     map (\<lambda>j. saturate_cast
                 (of_int (\<Sum>i \<leftarrow> [0..<n]. int (unat (m_Stream w (consumed w + 3 + i) ! j))) / of_nat n))
         [0..<frame_size w]"

text \<open>A camera of one channel value per frame whose \<open>i\<close>-th frame shows \<open>10 i\<close>.\<close>

definition ramp_camera :: webcam where
  "ramp_camera =
     \<lparr>m_Stream = (\<lambda>i. [word_of_nat (10 * i)]), consumed = 0, frame_size = 1, events = []\<rparr>"

section \<open>Focus and detection as the specification words them\<close>





section \<open>The masks of the finger at the left border\<close>



section \<open>Properties\<close>

subsection \<open>Colour-map indexing\<close>

lemma written_slots_eq: "written_slots = [0..<512]"
  unfolding written_slots_def fill_order_def map_index_def pattern_rows_def pattern_cols_def
  by code_simp

lemma count_list_distinct:
  "distinct xs \<Longrightarrow> x \<in> set xs \<Longrightarrow> count_list xs x = 1"
  by (induction xs) auto

text \<open>
  \<^bold>\<open>C9.\<close> When the colour map is filled from the 16 by 16 capture pattern, the index the
  program computes, \<open>(k * 256) + r * pattern.rows + c\<close>, equals the intended
  \<open>(k * 256) + r * pattern.cols + c\<close> at every iteration (both dimensions are 16), and
  the two passes of the loop nest write the slots \<open>0, 1, ..., 511\<close> in this order, so each
  of the 512 slots is written exactly once.
\<close>

theorem colour_map_index_equiv:
  "map_index k r c = map_index_intended k r c
   \<and> map (\<lambda>(k, r, c). map_index_intended k r c) fill_order = written_slots
   \<and> written_slots = [0..<512]
   \<and> map (count_list written_slots) [0..<512] = replicate 512 1"
proof -
  have a: "map_index k r c = map_index_intended k r c" for k r c
    by (simp add: map_index_def map_index_intended_def pattern_rows_def pattern_cols_def)
  have b: "map (\<lambda>(k, r, c). map_index_intended k r c) fill_order = written_slots"
    unfolding written_slots_def by (rule map_cong) (auto simp: a)
  have "count_list [0..<512] x = 1" if "x \<in> set [0..<512]" for x
    using that by (intro count_list_distinct) simp_all
  then have "map (count_list [0..<512]) [0..<512] = map (\<lambda>x. 1) [0..<512]"
    by (intro map_cong refl)
  then have c: "map (count_list [0..<512]) [0..<512] = replicate 512 (1::nat)"
    by (simp add: map_replicate_const)
  show ?thesis using a b c written_slots_eq by simp
qed

theorem colour_map_index_equiv_witness:
  "map_index 1 3 5 = map_index_intended 1 3 5 \<and> map_index 1 3 5 = 309
   \<and> written_slots ! 309 = 309"
proof -
  note t = colour_map_index_equiv [of 1 3 5]
  from t have a: "map_index 1 3 5 = map_index_intended 1 3 5" by (rule conjunct1)
  from t have b: "written_slots = [0..<512]" by (elim conjE)
  have c: "map_index_intended 1 3 5 = 309"
    by (simp add: map_index_intended_def pattern_cols_def)
  have d: "[0..<512] ! 309 = (309::nat)" by simp
  show ?thesis using a b c d by simp
qed

subsection \<open>Fingertip selection\<close>

lemma select_loop_id_match:
  "\<exists>f \<in> set fs. finger_id f = last_id \<Longrightarrow>
   select_loop last_id fs oldest chosen = find (\<lambda>f. finger_id f = last_id) fs"
  by (induction fs arbitrary: oldest chosen) auto

lemma select_loop_no_match:
  "\<forall>f \<in> set fs. finger_id f \<noteq> last_id \<Longrightarrow>
   (if \<exists>f \<in> set fs. oldest \<le> age f
    then \<exists>g \<in> set fs. select_loop last_id fs oldest chosen = Some g \<and> oldest \<le> age g
           \<and> (\<forall>f \<in> set fs. age f \<le> age g)
    else select_loop last_id fs oldest chosen = chosen)"
proof (induction fs arbitrary: oldest chosen)
  case Nil
  then show ?case by simp
next
  case (Cons f fs)
  then have nm: "\<forall>f \<in> set fs. finger_id f \<noteq> last_id" and nf: "finger_id f \<noteq> last_id"
    by simp_all
  show ?case
  proof (cases "oldest \<le> age f")
    case True
    note IH = Cons.IH [OF nm, of "age f" "Some f"]
    show ?thesis
    proof (cases "\<exists>h \<in> set fs. age f \<le> age h")
      case True
      with IH obtain g where "g \<in> set fs" "select_loop last_id fs (age f) (Some f) = Some g"
        "age f \<le> age g" "\<forall>h \<in> set fs. age h \<le> age g" by auto
      with \<open>oldest \<le> age f\<close> nf show ?thesis by auto
    next
      case False
      with IH have "select_loop last_id fs (age f) (Some f) = Some f" by simp
      with False \<open>oldest \<le> age f\<close> nf show ?thesis by (auto simp: not_le intro: less_imp_le)
    qed
  next
    case False
    note IH = Cons.IH [OF nm, of oldest chosen]
    show ?thesis
    proof (cases "\<exists>h \<in> set fs. oldest \<le> age h")
      case True
      with IH obtain g where "g \<in> set fs" "select_loop last_id fs oldest chosen = Some g"
        "oldest \<le> age g" "\<forall>h \<in> set fs. age h \<le> age g" by auto
      with False nf show ?thesis by (auto simp: not_le)
    next
      case F2: False
      with IH have "select_loop last_id fs oldest chosen = chosen" by simp
      with False F2 nf show ?thesis by auto
    qed
  qed
qed

subsection \<open>Delay queue\<close>

lemma ring_slot_distinct: "w < D \<Longrightarrow> 0 < i \<Longrightarrow> i < D \<Longrightarrow> (w + i) mod D \<noteq> (w::nat)"
proof (cases "w + i < D")
  case True
  assume "0 < i" with True show ?thesis by simp
next
  case False
  assume "w < D" "i < D"
  with False have "(w + i) mod D = w + i - D" by (simp add: le_mod_geq)
  with \<open>i < D\<close> False show ?thesis by simp
qed

lemma length_predictor_process [simp]:
  "length (m_FrameQueue (predictor_process p c g)) = length (m_FrameQueue g)"
  by (simp add: predictor_process_def Let_def)

lemma length_producer_run [simp]:
  "length (m_FrameQueue (producer_run p cs g)) = length (m_FrameQueue g)"
  by (induction cs arbitrary: g) simp_all

lemma written_frames_Cons:
  "written_frames p (c # cs) b =
     prediction_buffer (predictor_process p c (g\<lparr>prediction_buffer := b\<rparr>))
     # written_frames p cs (prediction_buffer (predictor_process p c (g\<lparr>prediction_buffer := b\<rparr>)))"
  by (cases c) (simp_all add: predictor_process_def Let_def)

lemma length_written_frames [simp]: "length (written_frames p cs b) = length cs"
  by (induction p cs b rule: written_frames.induct) simp_all

lemma producer_run_frame:
  "length cs \<le> length (m_FrameQueue g) \<Longrightarrow> 0 < length (m_FrameQueue g) \<Longrightarrow>
   \<forall>i < length cs. (m_WriteIndex g + i) mod length (m_FrameQueue g) \<noteq> j \<Longrightarrow>
   m_FrameQueue (producer_run p cs g) ! j = m_FrameQueue g ! j"
proof (induction cs arbitrary: g)
  case Nil
  then show ?case by simp
next
  case (Cons c cs)
  let ?g1 = "predictor_process p c g"
  let ?D = "length (m_FrameQueue g)"
  have w1: "m_WriteIndex ?g1 = (m_WriteIndex g + 1) mod ?D"
    by (simp add: predictor_process_def Let_def)
  have "\<forall>i < length cs. (m_WriteIndex ?g1 + i) mod length (m_FrameQueue ?g1) \<noteq> j"
  proof (intro allI impI)
    fix i assume "i < length cs"
    then have "(m_WriteIndex g + Suc i) mod ?D \<noteq> j" using Cons.prems(3) by auto
    then show "(m_WriteIndex ?g1 + i) mod length (m_FrameQueue ?g1) \<noteq> j"
      by (simp add: w1 mod_add_left_eq)
  qed
  with Cons.IH [of ?g1] Cons.prems
  have "m_FrameQueue (producer_run p cs ?g1) ! j = m_FrameQueue ?g1 ! j" by simp
  moreover have "m_WriteIndex g mod ?D \<noteq> j" using Cons.prems(3) by force
  then have "m_FrameQueue ?g1 ! j = m_FrameQueue g ! j"
    by (cases "m_WriteIndex g < ?D") (auto simp: predictor_process_def Let_def list_update_beyond)
  ultimately show ?case by simp
qed

lemma producer_run_holds:
  "0 < length (m_FrameQueue g) \<Longrightarrow> m_WriteIndex g < length (m_FrameQueue g) \<Longrightarrow>
   k < length cs \<Longrightarrow> length cs - k \<le> length (m_FrameQueue g) \<Longrightarrow>
   m_FrameQueue (producer_run p cs g) ! ((m_WriteIndex g + k) mod length (m_FrameQueue g))
     = written_frames p cs (prediction_buffer g) ! k"
proof (induction cs arbitrary: g k)
  case Nil
  then show ?case by simp
next
  case (Cons c cs)
  let ?g1 = "predictor_process p c g"
  let ?D = "length (m_FrameQueue g)"
  let ?b = "prediction_buffer ?g1"
  have w1: "m_WriteIndex ?g1 = (m_WriteIndex g + 1) mod ?D"
    by (simp add: predictor_process_def Let_def)
  have wf: "written_frames p (c # cs) (prediction_buffer g) = ?b # written_frames p cs ?b"
    using written_frames_Cons [of p c cs "prediction_buffer g" g] by simp
  have q1: "m_FrameQueue ?g1 ! m_WriteIndex g = ?b"
    using Cons.prems(2) by (simp add: predictor_process_def Let_def)
  show ?case
  proof (cases k)
    case 0
    have "\<forall>i < length cs. (m_WriteIndex ?g1 + i) mod length (m_FrameQueue ?g1) \<noteq> m_WriteIndex g"
    proof (intro allI impI)
      fix i assume i: "i < length cs"
      have "(m_WriteIndex g + Suc i) mod ?D \<noteq> m_WriteIndex g"
      proof
        assume e: "(m_WriteIndex g + Suc i) mod ?D = m_WriteIndex g"
        have "Suc i < ?D" using i Cons.prems(4) 0 by simp
        with ring_slot_distinct [of "m_WriteIndex g" ?D "Suc i"] Cons.prems(2) e
        show False by simp
      qed
      then show "(m_WriteIndex ?g1 + i) mod length (m_FrameQueue ?g1) \<noteq> m_WriteIndex g"
        by (simp add: w1 mod_add_left_eq)
    qed
    with producer_run_frame [of cs ?g1 "m_WriteIndex g" p] Cons.prems 0
    have "m_FrameQueue (producer_run p cs ?g1) ! m_WriteIndex g = m_FrameQueue ?g1 ! m_WriteIndex g"
      by simp
    with q1 wf 0 Cons.prems(2) show ?thesis by simp
  next
    case (Suc k')
    have "m_WriteIndex ?g1 < length (m_FrameQueue ?g1)" using Cons.prems(1) by (simp add: w1)
    with Cons.IH [of ?g1 k'] Cons.prems Suc
    have "m_FrameQueue (producer_run p cs ?g1) ! ((m_WriteIndex ?g1 + k') mod ?D)
            = written_frames p cs ?b ! k'" by simp
    moreover have "(m_WriteIndex ?g1 + k') mod ?D = (m_WriteIndex g + k) mod ?D"
      by (simp add: w1 Suc mod_add_left_eq)
    ultimately show ?thesis using wf Suc by simp
  qed
qed

lemma write_index_producer_run:
  "0 < length (m_FrameQueue g) \<Longrightarrow> m_WriteIndex g < length (m_FrameQueue g) \<Longrightarrow>
   m_WriteIndex (producer_run p cs g) = (m_WriteIndex g + length cs) mod length (m_FrameQueue g)"
proof (induction cs arbitrary: g)
  case Nil
  then show ?case by simp
next
  case (Cons c cs)
  have w1: "m_WriteIndex (predictor_process p c g) = (m_WriteIndex g + 1) mod length (m_FrameQueue g)"
    by (simp add: predictor_process_def Let_def)
  from Cons.IH [of "predictor_process p c g"] Cons.prems
  show ?case by (simp add: w1 mod_add_left_eq)
qed

lemma predictor_process_step:
  "predictor_process p c g =
     g\<lparr>prediction_buffer := (case c of Some s \<Rightarrow> p s | None \<Rightarrow> prediction_buffer g),
       m_FrameQueue := (m_FrameQueue g)[m_WriteIndex g :=
          (case c of Some s \<Rightarrow> p s | None \<Rightarrow> prediction_buffer g)],
       m_WriteIndex := (m_WriteIndex g + 1) mod length (m_FrameQueue g)\<rparr>"
  by (simp add: predictor_process_def Let_def)

text \<open>
  \<^bold>\<open>C2.\<close> For a delay queue of \<open>D\<close> frames: every iteration of the producer loop,
  with or without a new screen frame, copies the prediction buffer into slot
  \<open>m_WriteIndex\<close> (and nothing else) and then advances \<open>m_WriteIndex\<close> by one modulo
  \<open>D\<close>; after at least \<open>D\<close> iterations \<open>read_prediction\<close> returns the frame written
  \<open>D - 1\<close> writes before the newest one, the oldest of the last \<open>D\<close> frames written.
\<close>

theorem delay_queue_reads_oldest:
  assumes "length (m_FrameQueue g) = D" and "0 < D" and "m_WriteIndex g < D"
    and "D \<le> length cs"
  shows "read_prediction (producer_run predictor cs g)
           = written_frames predictor cs (prediction_buffer g) ! (length cs - D)
         \<and> length (written_frames predictor cs (prediction_buffer g)) = length cs
         \<and> m_FrameQueue (predictor_process predictor c g)
             = (m_FrameQueue g)[m_WriteIndex g := prediction_buffer (predictor_process predictor c g)]
         \<and> m_WriteIndex (predictor_process predictor c g) = (m_WriteIndex g + 1) mod D
         \<and> prediction_buffer (predictor_process predictor c g)
             = (case c of Some s \<Rightarrow> predictor s | None \<Rightarrow> prediction_buffer g)"
proof -
  let ?n = "length cs"
  have "(m_WriteIndex g + ?n) mod D = (m_WriteIndex g + (?n - D)) mod D"
    using assms(4) by (metis add.assoc le_add_diff_inverse2 mod_add_self2)
  moreover have "?n - D < ?n" "?n - (?n - D) \<le> D" using assms by simp_all
  ultimately have "read_prediction (producer_run predictor cs g)
           = written_frames predictor cs (prediction_buffer g) ! (?n - D)"
    using producer_run_holds [of g "?n - D" cs predictor] assms
    by (simp add: read_prediction_def write_index_producer_run)
  then show ?thesis using assms by (simp add: predictor_process_step)
qed

theorem delay_queue_reads_oldest_witness:
  "read_prediction (producer_run (\<lambda>s. s + 100) [Some 1, None, Some 2, Some 3, None] (start (0::nat)))
     = 102
   \<and> written_frames (\<lambda>s. s + 100) [Some 1, None, Some 2, Some 3, None] (0::nat)
     = [101, 101, 102, 103, 103]"
  using delay_queue_reads_oldest [of "start (0::nat)" 3 "[Some 1, None, Some 2, Some 3, None]" "\<lambda>s. s + 100" None]
  by (simp add: start_def prediction_delay_def)

subsection \<open>Focus and the tracking region\<close>

lemma track_region [simp]:
  "m_TrackingRegion (snd (track cands t)) = m_TrackingRegion t"
  "m_TrackingResetTimer (snd (track cands t)) = m_TrackingResetTimer t"
  by (simp_all add: track_def split: prod.splits)












subsection \<open>Tracking across frames\<close>

lemma match_single:
  assumes "pt_dot (pt_sub (point f) tip) (pt_sub (point f) tip) < 75 * 75"
  shows "match_loop 0 [(f, life)] [(tip, c)] [] =
           ([], [], [\<lparr>point = tip, com = c, age = age f + 1, finger_id = finger_id f\<rparr>])"
proof -
  have cc: "closest_candidate (point f) [(tip, c)] 0 (MAX_TRACKING_RANGE * MAX_TRACKING_RANGE) (- 1) = 0"
    using assms by (simp add: MAX_TRACKING_RANGE_def Let_def)
  have e: "match_loop 0 [] [] fs = ([], [], fs)" for fs :: "fingertip list"
    by (subst match_loop.simps) simp
  show ?thesis
    apply (subst match_loop.simps)
    using assms apply (simp add: Let_def swap_pop_def e MAX_TRACKING_RANGE_def)
    done
qed

lemma decay_loop_Nil [simp]: "decay_loop 0 [] = []"
  by (subst decay_loop.simps) simp

text \<open>
  \<^bold>\<open>C8.\<close> If the tracking memory holds exactly one fingertip \<open>f\<close> and a call of
  \<open>detect\<close> finds exactly one candidate, whose tip is at squared distance below
  \<open>75\<^sup>2\<close> from the point of \<open>f\<close>, then the call returns exactly one fingertip: the
  candidate's tip and centre with the id of \<open>f\<close> and its age plus one. No fresh id is
  drawn (\<open>m_NextID\<close> is unchanged), and the memory afterwards holds that fingertip with
  life 10.
\<close>

theorem tracker_preserves_id:
  assumes "m_TrackingMemory t = [(f, life)]"
    and "find_candidates (m_TrackingRegion (update_tracking_region mask_size t))
           (find_contours (m_TrackingRegion (update_tracking_region mask_size t))) []
         = Some [(tip, c)]"
    and "pt_dot (pt_sub (point f) tip) (pt_sub (point f) tip) < 75 * 75"
  shows "\<exists>t'. detect mask_size find_contours t
           = Some ([\<lparr>point = tip, com = c, age = age f + 1, finger_id = finger_id f\<rparr>], t')
         \<and> m_NextID t' = m_NextID t
         \<and> m_TrackingMemory t'
             = [(\<lparr>point = tip, com = c, age = age f + 1, finger_id = finger_id f\<rparr>, 10)]"
proof -
  have m: "m_TrackingMemory (update_tracking_region mask_size t) = [(f, life)]"
    using assms(1) by (simp add: update_tracking_region_def Let_def)
  have n: "m_NextID (update_tracking_region mask_size t) = m_NextID t"
    by (simp add: update_tracking_region_def Let_def)
  show ?thesis
    using assms(2) match_single [OF assms(3), of life c]
    by (simp add: detect_def Let_def track_def m n update_tracking_memory_def
        MAX_TRACKING_LIFE_def)
qed

theorem tracker_preserves_id_witness:
  "map_option fst
     (detect (640, 480) (\<lambda>r. [finger_blob])
        (FingerTracker\<lparr>m_NextID := 8,
           m_TrackingMemory :=
             [(\<lparr>point = (97, 238), com = (86, 238), age = 3, finger_id = 7\<rparr>, 10)]\<rparr>))
   = Some [\<lparr>point = (100, 240), com = (89, 240), age = 4, finger_id = 7\<rparr>]"
proof -
  let ?f = "\<lparr>point = (97, 238), com = (86, 238), age = 3, finger_id = 7\<rparr>"
  let ?t = "FingerTracker\<lparr>m_NextID := 8, m_TrackingMemory := [(?f, 10)]\<rparr>"
  have r: "m_TrackingRegion (update_tracking_region (640, 480) ?t) = full_frame (640, 480)"
    by code_simp
  have a: "m_TrackingMemory ?t = [(?f, 10)]" by simp
  have b: "find_candidates (m_TrackingRegion (update_tracking_region (640, 480) ?t))
             ((\<lambda>r. [finger_blob]) (m_TrackingRegion (update_tracking_region (640, 480) ?t))) []
           = Some [((100, 240), (89, 240))]"
    unfolding r by code_simp
  have c: "pt_dot (pt_sub (point ?f) (100, 240)) (pt_sub (point ?f) (100, 240)) < 75 * 75"
    by (simp add: pt_dot_def pt_sub_def)
  from tracker_preserves_id [OF a b c] show ?thesis by auto
qed

subsection \<open>The cluster loop on a single cluster\<close>

lemma cluster_loop_within:
  "single_cluster c (l # rest) \<Longrightarrow> cluster_loop c score rest l best bs cands = Some cands"
  by (induction rest arbitrary: l best bs) (auto simp: Let_def split: option.splits)

lemma cluster_loop_single_cluster:
  assumes "single_cluster c walk" and "contour_at c offset \<noteq> None"
    and "walk \<noteq> [] \<longrightarrow> contour_at c (hd walk) \<noteq> None"
  shows "cluster_loop c score walk offset (- 1) ARC_MIN_SCORE cands = Some cands"
proof (cases walk)
  case Nil
  then show ?thesis by simp
next
  case (Cons i rest)
  with assms(1) have w: "single_cluster c (i # rest)" by simp
  from assms(2,3) Cons obtain p q where "contour_at c i = Some p" "contour_at c offset = Some q"
    by auto
  then show ?thesis
    using Cons cluster_loop_within [OF w]
    by (simp add: Let_def)
qed

text \<open>
  \<^bold>\<open>C1.\<close> The specification states that for a contour of area at least 500 whose hull
  points form a single cluster containing a point with arc score above 50, exactly one
  candidate is emitted, at the cluster's best score. The loop does not do this. It
  appends the best point of a cluster only when a later hull point starts a new cluster,
  and nothing follows the loop, so the last cluster of every contour is dropped. For a
  contour whose hull is a single cluster no candidate is appended at all, whatever the
  arc scores are: \<open>cands\<close> comes back unchanged.
\<close>

theorem single_cluster_emits_nothing:
  assumes "of_int MIN_CONTOUR_AREA \<le> area ci"
    and "list_all (\<lambda>e. 0 \<le> e \<and> e < int (length (contour ci))) (extremities ci)"
    and "find_offset region (contour ci) (extremities ci) < length (contour ci)"
    and "single_cluster (contour ci)
           (walk_order (extremities ci) (find_offset region (contour ci) (extremities ci)))"
  shows "contour_candidates region ci cands = Some cands"
proof (cases "extremities ci = []")
  case True
  then show ?thesis by (simp add: contour_candidates_def)
next
  case False
  let ?off = "find_offset region (contour ci) (extremities ci)"
  let ?walk = "walk_order (extremities ci) ?off"
  have a: "contour_at (contour ci) (int ?off) \<noteq> None"
    using assms(3) by (simp add: contour_at_def)
  have "set ?walk \<subseteq> set (extremities ci)"
    using False by (auto simp: walk_order_def)
  then have "\<forall>e \<in> set ?walk. contour_at (contour ci) e \<noteq> None"
    using assms(2) by (auto simp: list_all_iff contour_at_def)
  then have b: "?walk \<noteq> [] \<longrightarrow> contour_at (contour ci) (hd ?walk) \<noteq> None"
    by simp
  from cluster_loop_single_cluster [OF assms(4) a b]
  show ?thesis using assms(1,2) False by (simp add: contour_candidates_def Let_def)
qed

text \<open>
  The disc of radius 22: area 1454, one cluster, every hull point has arc score 55. The
  first hull point visited is contour index 0, for which the candidate would be the tip
  \<open>(320, 218)\<close> with centre \<open>(320, 224)\<close>; the contour yields no candidate.
\<close>

theorem single_cluster_emits_nothing_witness:
  "contour_candidates (full_frame (640, 480)) disc_blob [] = Some []
   \<and> area disc_blob = 1454
   \<and> single_cluster (contour disc_blob) (walk_order (extremities disc_blob) 36)
   \<and> list_all (\<lambda>e. arc_score disc_blob e = 55) (extremities disc_blob)
   \<and> make_candidate (contour disc_blob) 0 = Some ((320, 218), (320, 224))"
proof -
  have o: "find_offset (full_frame (640, 480)) (contour disc_blob) (extremities disc_blob) = 36"
    by code_simp
  have a: "of_int MIN_CONTOUR_AREA \<le> area disc_blob" by code_simp
  have b: "list_all (\<lambda>e. 0 \<le> e \<and> e < int (length (contour disc_blob))) (extremities disc_blob)"
    by code_simp
  have c: "find_offset (full_frame (640, 480)) (contour disc_blob) (extremities disc_blob)
             < length (contour disc_blob)"
    by code_simp
  have d: "single_cluster (contour disc_blob) (walk_order (extremities disc_blob) 36)"
    by code_simp
  have e: "area disc_blob = 1454" by code_simp
  have f: "list_all (\<lambda>e. arc_score disc_blob e = 55) (extremities disc_blob)" by code_simp
  have g: "make_candidate (contour disc_blob) 0 = Some ((320, 218), (320, 224))" by code_simp
  from single_cluster_emits_nothing [OF a b c, of "[]"] d o
  have "contour_candidates (full_frame (640, 480)) disc_blob [] = Some []" by simp
  with d e f g show ?thesis by simp
qed

subsection \<open>Rounding to single precision\<close>

text \<open>
  Facts about \<open>fl32\<close> used below: the exponent brackets its argument, rounding is
  monotone on the non-negative rationals, and a value with known exponent is rounded by one
  integer rounding.
\<close>

lemma rte_cases: "round_ties_even a = \<lfloor>a\<rfloor> \<or> round_ties_even a = \<lfloor>a\<rfloor> + 1"
  by (simp add: round_ties_even_def Let_def)

lemma rte_of_int [simp]: "round_ties_even (of_int n) = n"
  by (simp add: round_ties_even_def Let_def)

lemma rte_mono: "a \<le> b \<Longrightarrow> round_ties_even a \<le> round_ties_even b"
proof -
  assume ab: "a \<le> b"
  then have fl: "\<lfloor>a\<rfloor> \<le> \<lfloor>b\<rfloor>" by (rule floor_mono)
  show ?thesis
  proof (cases "\<lfloor>a\<rfloor> = \<lfloor>b\<rfloor>")
    case True
    with ab have "a - of_int \<lfloor>a\<rfloor> \<le> b - of_int \<lfloor>b\<rfloor>" by simp
    with True show ?thesis by (auto simp: round_ties_even_def Let_def)
  next
    case False
    with fl have "\<lfloor>a\<rfloor> + 1 \<le> \<lfloor>b\<rfloor>" by simp
    moreover have "round_ties_even a \<le> \<lfloor>a\<rfloor> + 1" using rte_cases [of a] by auto
    moreover have "\<lfloor>b\<rfloor> \<le> round_ties_even b" using rte_cases [of b] by auto
    ultimately show ?thesis by linarith
  qed
qed

lemma f32_exponent_bounds:
  assumes "0 < x"
  shows "x < 2 powi (f32_exponent x + 1)"
    and "- 126 < f32_exponent x \<Longrightarrow> 2 powi (f32_exponent x) \<le> x"
    and "- 126 \<le> f32_exponent x"
proof -
  obtain p q where pq: "quotient_of x = (p, q)" by (cases "quotient_of x")
  then have q: "0 < q" and x: "x = of_int p / of_int q"
    by (simp_all add: quotient_of_denom_pos quotient_of_div)
  with assms have p: "0 < p" by (simp add: zero_less_divide_iff)
  define bp bq where "bp = bitlen p" and "bq = bitlen q"
  have bp1: "1 \<le> bp" and bq1: "1 \<le> bq"
    using p q bitlen_eq_zero_iff [of p] bitlen_eq_zero_iff [of q] bitlen_nonneg [of p] bitlen_nonneg [of q]
    by (auto simp: bp_def bq_def)
  from bitlen_bounds [OF p] have pl: "2 ^ nat (bp - 1) \<le> p" and pu: "p < 2 ^ nat bp"
    by (simp_all add: bp_def)
  from bitlen_bounds [OF q] have ql: "2 ^ nat (bq - 1) \<le> q" and qu: "q < 2 ^ nat bq"
    by (simp_all add: bq_def)
  have plr: "(2::rat) powi (bp - 1) \<le> of_int p"
  proof -
    have "(of_int (2 ^ nat (bp - 1)) :: rat) \<le> of_int p" using pl by (simp only: of_int_le_iff)
    then show ?thesis using bp1 by (simp add: power_int_def)
  qed
  have pur: "of_int p < (2::rat) powi bp"
  proof -
    have "(of_int p :: rat) < of_int (2 ^ nat bp)" using pu by (simp only: of_int_less_iff)
    then show ?thesis using bp1 by (simp add: power_int_def)
  qed
  have qlr: "(2::rat) powi (bq - 1) \<le> of_int q"
  proof -
    have "(of_int (2 ^ nat (bq - 1)) :: rat) \<le> of_int q" using ql by (simp only: of_int_le_iff)
    then show ?thesis using bq1 by (simp add: power_int_def)
  qed
  have qur: "of_int q < (2::rat) powi bq"
  proof -
    have "(of_int q :: rat) < of_int (2 ^ nat bq)" using qu by (simp only: of_int_less_iff)
    then show ?thesis using bq1 by (simp add: power_int_def)
  qed
  have qpos: "(0::rat) < of_int q" using q by simp
  have up: "x < 2 powi (bp - bq + 1)"
  proof -
    have "x * of_int q = of_int p" using x qpos by simp
    also have "\<dots> < 2 powi bp" by (rule pur)
    also have "\<dots> = 2 powi (bp - bq + 1) * 2 powi (bq - 1)"
      by (simp add: power_int_add [symmetric])
    also have "\<dots> \<le> 2 powi (bp - bq + 1) * of_int q"
      using qlr by (intro mult_left_mono) simp_all
    finally show ?thesis using qpos by simp
  qed
  have lo: "2 powi (bp - bq - 1) < x"
  proof -
    have "2 powi (bp - bq - 1) * of_int q < 2 powi (bp - bq - 1) * (2::rat) powi bq"
      using qur by (intro mult_strict_left_mono) simp_all
    also have "\<dots> = 2 powi (bp - 1)" by (simp add: power_int_add [symmetric])
    also have "\<dots> \<le> of_int p" by (rule plr)
    also have "\<dots> = x * of_int q" using x qpos by simp
    finally show ?thesis using qpos by simp
  qed
  define r where "r = (if 2 powi (bp - bq) \<le> x then bp - bq else bp - bq - 1)"
  have e: "f32_exponent x = max (- 126) r"
    by (simp add: f32_exponent_def pq Let_def r_def bp_def bq_def)
  have rl: "2 powi r \<le> x" using lo by (auto simp: r_def)
  have ru: "x < 2 powi (r + 1)" using up by (auto simp: r_def not_le)
  have "(2::rat) powi (r + 1) \<le> 2 powi (max (- 126) r + 1)"
    by (intro power_int_increasing) simp_all
  with ru show "x < 2 powi (f32_exponent x + 1)" unfolding e by simp
  show "- 126 < f32_exponent x \<Longrightarrow> 2 powi (f32_exponent x) \<le> x"
    using rl unfolding e by (simp add: max_def split: if_splits)
  show "- 126 \<le> f32_exponent x" unfolding e by simp
qed


lemma f32_exponent_eq:
  assumes "0 < x" and "2 powi e \<le> x" and "x < 2 powi (e + 1)" and "- 126 \<le> e"
  shows "f32_exponent x = e"
proof (rule ccontr)
  assume ne: "f32_exponent x \<noteq> e"
  note b = f32_exponent_bounds [OF assms(1)]
  show False
  proof (cases "f32_exponent x < e")
    case True
    then have "(2::rat) powi (f32_exponent x + 1) \<le> 2 powi e"
      by (intro power_int_increasing) simp_all
    with b(1) assms(2) show False by simp
  next
    case False
    with ne have gt: "e < f32_exponent x" by simp
    then have "(2::rat) powi (e + 1) \<le> 2 powi (f32_exponent x)"
      by (intro power_int_increasing) simp_all
    moreover have "2 powi (f32_exponent x) \<le> x" using b(2) gt assms(4) by simp
    ultimately show False using assms(3) by simp
  qed
qed

lemma f32_exponent_subnormal:
  assumes "0 < x" and "x < 2 powi (- 126)"
  shows "f32_exponent x = - 126"
proof (rule ccontr)
  assume "f32_exponent x \<noteq> - 126"
  with f32_exponent_bounds(3) [OF assms(1)] have gt: "- 126 < f32_exponent x" by simp
  then have "(2::rat) powi (- 126) \<le> 2 powi (f32_exponent x)"
    by (intro power_int_increasing) simp_all
  with f32_exponent_bounds(2) [OF assms(1) gt] assms(2) show False by simp
qed

lemma fl32_pos:
  "0 < x \<Longrightarrow> fl32 x = of_int (round_ties_even (x / 2 powi (f32_exponent x - 23)))
                          * 2 powi (f32_exponent x - 23)"
  by (simp add: fl32_def Let_def)

lemma fl32_eval:
  assumes "0 < x" and "2 powi e \<le> x" and "x < 2 powi (e + 1)" and "- 126 \<le> e"
  shows "fl32 x = of_int (round_ties_even (x / 2 powi (e - 23))) * 2 powi (e - 23)"
  using fl32_pos [OF assms(1)] f32_exponent_eq [OF assms] by simp

lemma fl32_nonneg: "0 \<le> x \<Longrightarrow> 0 \<le> fl32 x"
proof (cases "x = 0")
  case True
  then show ?thesis by (simp add: fl32_def)
next
  case False
  assume "0 \<le> x"
  with False have x: "0 < x" by simp
  have "0 \<le> x / 2 powi (f32_exponent x - 23)" using x by simp
  then have "round_ties_even 0 \<le> round_ties_even (x / 2 powi (f32_exponent x - 23))"
    by (rule rte_mono)
  then have "0 \<le> round_ties_even (x / 2 powi (f32_exponent x - 23))"
    using rte_of_int [of 0] by simp
  then show ?thesis unfolding fl32_pos [OF x] by simp
qed

lemma f32_exponent_mono:
  assumes "0 < x" and "x \<le> y"
  shows "f32_exponent x \<le> f32_exponent y"
proof (rule ccontr)
  assume "\<not> f32_exponent x \<le> f32_exponent y"
  then have lt: "f32_exponent y < f32_exponent x" by simp
  have y: "0 < y" using assms by simp
  from lt f32_exponent_bounds(3) [OF y] have "- 126 < f32_exponent x" by simp
  then have "2 powi (f32_exponent x) \<le> x" by (rule f32_exponent_bounds(2) [OF assms(1)])
  moreover have "y < 2 powi (f32_exponent y + 1)" by (rule f32_exponent_bounds(1) [OF y])
  moreover have "(2::rat) powi (f32_exponent y + 1) \<le> 2 powi (f32_exponent x)"
    using lt by (intro power_int_increasing) simp_all
  ultimately show False using assms(2) by simp
qed

lemma fl32_upper:
  assumes "0 < x"
  shows "fl32 x \<le> 2 powi (f32_exponent x + 1)"
proof -
  let ?e = "f32_exponent x"
  let ?u = "(2::rat) powi (?e - 23)"
  have u: "0 < ?u" by simp
  have "x / ?u < 2 powi (?e + 1) / ?u"
    using f32_exponent_bounds(1) [OF assms] u by (simp add: divide_strict_right_mono)
  also have "2 powi (?e + 1) / ?u = (2::rat) powi 24"
    by (simp add: power_int_diff [symmetric])
  finally have "x / ?u \<le> of_int (2 ^ 24)" by simp
  then have "round_ties_even (x / ?u) \<le> round_ties_even (of_int (2 ^ 24))" by (rule rte_mono)
  then have "round_ties_even (x / ?u) \<le> 2 ^ 24" by (simp only: rte_of_int)
  then have "(of_int (round_ties_even (x / ?u)) :: rat) \<le> of_int (2 ^ 24)"
    by (simp only: of_int_le_iff)
  then have "of_int (round_ties_even (x / ?u)) * ?u \<le> of_int (2 ^ 24) * ?u"
    using u by (intro mult_right_mono) simp_all
  also have "of_int (2 ^ 24) * ?u = 2 powi (?e + 1)"
  proof -
    have "(2::rat) powi (24 + (?e - 23)) = 2 powi 24 * ?u" by (subst power_int_add) simp_all
    moreover have "24 + (?e - 23) = ?e + 1" by simp
    ultimately show ?thesis by simp
  qed
  finally show ?thesis unfolding fl32_pos [OF assms] .
qed

lemma fl32_lower:
  assumes "0 < x" and "- 126 < f32_exponent x"
  shows "2 powi (f32_exponent x) \<le> fl32 x"
proof -
  let ?e = "f32_exponent x"
  let ?u = "(2::rat) powi (?e - 23)"
  have u: "0 < ?u" by simp
  have "2 powi ?e / ?u \<le> x / ?u"
    using f32_exponent_bounds(2) [OF assms] u by (simp add: divide_right_mono)
  moreover have "2 powi ?e / ?u = (2::rat) powi 23"
    by (simp add: power_int_diff [symmetric])
  ultimately have "of_int (2 ^ 23) \<le> x / ?u" by simp
  then have "round_ties_even (of_int (2 ^ 23)) \<le> round_ties_even (x / ?u)" by (rule rte_mono)
  then have "2 ^ 23 \<le> round_ties_even (x / ?u)" by (simp only: rte_of_int)
  then have "(of_int (2 ^ 23) :: rat) \<le> of_int (round_ties_even (x / ?u))"
    by (simp only: of_int_le_iff)
  then have m: "of_int (2 ^ 23) * ?u \<le> of_int (round_ties_even (x / ?u)) * ?u"
    using u by (intro mult_right_mono) simp_all
  have "of_int (2 ^ 23) * ?u = 2 powi ?e"
  proof -
    have "(2::rat) powi (23 + (?e - 23)) = 2 powi 23 * ?u" by (subst power_int_add) simp_all
    moreover have "23 + (?e - 23) = ?e" by simp
    ultimately show ?thesis by simp
  qed
  with m show ?thesis unfolding fl32_pos [OF assms(1)] by (simp only:)
qed

lemma fl32_mono:
  assumes "0 \<le> x" and "x \<le> y"
  shows "fl32 x \<le> fl32 y"
proof (cases "x = 0")
  case True
  with assms fl32_nonneg [of y] show ?thesis by (simp add: fl32_def)
next
  case False
  with assms have x: "0 < x" and y: "0 < y" by simp_all
  have le: "f32_exponent x \<le> f32_exponent y" by (rule f32_exponent_mono [OF x assms(2)])
  show ?thesis
  proof (cases "f32_exponent x = f32_exponent y")
    case True
    let ?u = "(2::rat) powi (f32_exponent y - 23)"
    have "x / ?u \<le> y / ?u" using assms(2) by (simp add: divide_right_mono)
    then have "round_ties_even (x / ?u) \<le> round_ties_even (y / ?u)" by (rule rte_mono)
    then have "(of_int (round_ties_even (x / ?u)) :: rat) \<le> of_int (round_ties_even (y / ?u))"
      by (simp only: of_int_le_iff)
    then have "of_int (round_ties_even (x / ?u)) * ?u \<le> of_int (round_ties_even (y / ?u)) * ?u"
      by (intro mult_right_mono) simp_all
    then show ?thesis unfolding fl32_pos [OF x] fl32_pos [OF y] True .
  next
    case False
    with le have lt: "f32_exponent x < f32_exponent y" by simp
    with f32_exponent_bounds(3) [OF x] have "- 126 < f32_exponent y" by simp
    then have "2 powi (f32_exponent y) \<le> fl32 y" by (rule fl32_lower [OF y])
    moreover have "fl32 x \<le> 2 powi (f32_exponent x + 1)" by (rule fl32_upper [OF x])
    moreover have "(2::rat) powi (f32_exponent x + 1) \<le> 2 powi (f32_exponent y)"
      using lt by (intro power_int_increasing) simp_all
    ultimately show ?thesis by linarith
  qed
qed

lemma fl32_of_int_exact:
  assumes "0 \<le> n" and "n \<le> 2 ^ 24"
  shows "fl32 (of_int n) = of_int n"
proof (cases "n = 0")
  case True
  then show ?thesis by (simp add: fl32_def)
next
  case False
  with assms have n: "0 < n" by simp
  then have x: "(0::rat) < of_int n" by simp
  let ?e = "f32_exponent (of_int n)"
  let ?u = "(2::rat) powi (?e - 23)"
  have "(1::rat) \<le> of_int n" using n by simp
  also have "of_int n < (2::rat) powi (?e + 1)" by (rule f32_exponent_bounds(1) [OF x])
  finally have "(2::rat) powi 0 < 2 powi (?e + 1)" by simp
  then have e0: "0 \<le> ?e"
    by (smt (verit) power_int_increasing one_le_numeral not_less)
  then have lo: "2 powi ?e \<le> (of_int n :: rat)"
    by (intro f32_exponent_bounds(2) [OF x]) simp
  have "(of_int n :: rat) \<le> of_int (2 ^ 24)" using assms(2) by (simp only: of_int_le_iff)
  with lo have "(2::rat) powi ?e \<le> 2 powi 24" by simp
  then have e24: "?e \<le> 24"
    by (smt (verit) power_int_strict_increasing one_less_numeral_iff semiring_norm(76) not_less)
  have "\<exists>k. of_int n / ?u = (of_int k :: rat)"
  proof (cases "?e \<le> 23")
    case True
    have "(2::rat) powi (?e - 23) * 2 powi (23 - ?e) = 2 powi ((?e - 23) + (23 - ?e))"
      by (subst power_int_add) simp_all
    then have "(2::rat) powi (?e - 23) * 2 powi (23 - ?e) = 1" by simp
    then have "of_int n / ?u = of_int n * (2::rat) powi (23 - ?e)"
      by (simp add: field_simps)
    also have "(2::rat) powi (23 - ?e) = of_int (2 ^ nat (23 - ?e))"
      using True by (simp add: power_int_def)
    finally have "of_int n / ?u = (of_int (n * 2 ^ nat (23 - ?e)) :: rat)" by simp
    then show ?thesis by blast
  next
    case False
    with e24 have e: "?e = 24" by simp
    with lo have "(of_int (2 ^ 24) :: rat) \<le> of_int n" by simp
    then have "2 ^ 24 \<le> n" by (simp only: of_int_le_iff)
    with assms(2) have "n = 2 ^ 24" by simp
    then have n24: "(of_int n :: rat) = 16777216" by simp
    have u2: "?u = 2" by (simp add: e)
    have "of_int n / ?u = of_int n / 2" by (simp only: u2)
    also have "\<dots> = (of_int (2 ^ 23) :: rat)" by (simp add: n24)
    finally show ?thesis by blast
  qed
  then obtain k where k: "of_int n / ?u = (of_int k :: rat)" by blast
  have "fl32 (of_int n) = of_int k * ?u" unfolding fl32_pos [OF x] k by simp
  also have "\<dots> = of_int n / ?u * ?u" by (simp only: k)
  also have "\<dots> = of_int n" by simp
  finally show ?thesis .
qed

lemma fl32_recip_255: "fl32 (1 / 255) = 8421505 / 2147483648"
  by code_simp

lemma fl32_255_recip: "fl32 (2147483775 / 2147483648) = 1"
  by code_simp

lemma fl32_one: "fl32 1 = 1"
  by code_simp

lemma CMAP_STEP_value: "CMAP_STEP = 9586981 / 67108864"
  by code_simp

lemma fl32_recip_step: "fl32 (67108864 / 9586981) = 14680063 / 2097152"
  by code_simp


subsection \<open>Cube indices of the colour map\<close>

lemma CMAP_STEP_pos: "0 < CMAP_STEP"
  by (simp add: CMAP_STEP_value)

lemma norm_channel_le_1:
  fixes c :: "8 word"
  shows "0 \<le> scalar_div dv (of_nat (unat c)) 255 \<and> scalar_div dv (of_nat (unat c)) 255 \<le> 1"
proof -
  define v :: rat where "v = of_nat (unat c)"
  have "unat c < 256" using unsigned_less [of c] by simp
  then have "unat c \<le> 255" by simp
  then have "(of_nat (unat c) :: rat) \<le> of_nat 255" by (simp only: of_nat_le_iff)
  then have c: "v \<le> 255" by (simp add: v_def)
  have c0: "0 \<le> v" unfolding v_def by (rule of_nat_0_le_iff)
  have "0 \<le> scalar_div dv v 255 \<and> scalar_div dv v 255 \<le> 1"
  proof (cases dv)
    case Times_reciprocal
    have "v * (8421505 / 2147483648) \<le> 255 * (8421505 / 2147483648)"
      using c by (intro mult_right_mono) simp_all
    then have le: "v * (8421505 / 2147483648) \<le> 2147483775 / 2147483648" by simp
    have ge: "0 \<le> v * (8421505 / 2147483648)" using c0 by simp
    have "fl32 (v * (8421505 / 2147483648)) \<le> 1"
      using fl32_mono [OF ge le] by (simp only: fl32_255_recip)
    moreover have "0 \<le> fl32 (v * (8421505 / 2147483648))" by (rule fl32_nonneg [OF ge])
    ultimately show ?thesis
      by (simp add: scalar_div_def Times_reciprocal fl32_recip_255)
  next
    case Quotient
    have le: "v / 255 \<le> 1" using c by simp
    have ge: "0 \<le> v / 255" using c0 by simp
    have "fl32 (v / 255) \<le> 1" using fl32_mono [OF ge le] by (simp only: fl32_one)
    moreover have "0 \<le> fl32 (v / 255)" by (rule fl32_nonneg [OF ge])
    ultimately show ?thesis by (simp add: scalar_div_def Quotient)
  qed
  then show ?thesis by (simp only: v_def)
qed

lemma cube_index_range:
  assumes "0 \<le> n" and "n \<le> 1"
  shows "0 \<le> cube_index n \<and> cube_index n \<le> 6"
proof -
  have a: "0 \<le> n / CMAP_STEP" using assms(1) CMAP_STEP_pos by simp
  have b: "n / CMAP_STEP \<le> 1 / CMAP_STEP"
    using assms(2) CMAP_STEP_pos by (simp add: divide_right_mono)
  have "fl32 (n / CMAP_STEP) \<le> fl32 (1 / CMAP_STEP)" by (rule fl32_mono [OF a b])
  then have u: "fl32 (n / CMAP_STEP) \<le> 14680063 / 2097152"
    using fl32_recip_step by (simp add: CMAP_STEP_value)
  have l: "0 \<le> fl32 (n / CMAP_STEP)" by (rule fl32_nonneg [OF a])
  have "\<lfloor>fl32 (n / CMAP_STEP)\<rfloor> \<le> \<lfloor>14680063 / 2097152 :: rat\<rfloor>" using u by (rule floor_mono)
  moreover have "\<lfloor>14680063 / 2097152 :: rat\<rfloor> = 6" by (simp add: floor_eq_iff)
  moreover have "0 \<le> \<lfloor>fl32 (n / CMAP_STEP)\<rfloor>" using l by simp
  ultimately show ?thesis using l by (simp add: cube_index_def trunc_int_def)
qed

lemma cube_index_channel:
  fixes c :: "8 word"
  shows "0 \<le> cube_index (scalar_div dv (of_nat (unat c)) 255)
         \<and> cube_index (scalar_div dv (of_nat (unat c)) 255) \<le> 6"
  using norm_channel_le_1 [of dv c] by (intro cube_index_range) simp_all

lemma cube_index_one: "cube_index 1 = 6"
proof -
  have "\<lfloor>14680063 / 2097152 :: rat\<rfloor> = 6" by (simp add: floor_eq_iff)
  then show ?thesis
    by (simp add: cube_index_def trunc_int_def CMAP_STEP_value fl32_recip_step)
qed

lemma cube_index_255: "cube_index (scalar_div dv (of_nat (unat (255 :: 8 word))) 255) = 6"
proof (cases dv)
  case Times_reciprocal
  have "scalar_div dv (of_nat (unat (255 :: 8 word))) 255 = 1"
    by (simp add: scalar_div_def Times_reciprocal fl32_recip_255 fl32_255_recip)
  then show ?thesis by (simp only: cube_index_one)
next
  case Quotient
  have "scalar_div dv (of_nat (unat (255 :: 8 word))) 255 = 1"
    by (simp add: scalar_div_def Quotient fl32_one)
  then show ?thesis by (simp only: cube_index_one)
qed

lemma xyz_in_range:
  assumes "0 \<le> x" "x \<le> 7" "0 \<le> y" "y \<le> 7" "0 \<le> z" "z \<le> 7"
  shows "0 \<le> xyz_to_3d_index x y z CMAP_SIZE \<and> xyz_to_3d_index x y z CMAP_SIZE < 512"
proof -
  have "z * 8 + y \<le> 63" "0 \<le> z * 8 + y" using assms by simp_all
  then have "(z * 8 + y) * 8 \<le> 504" "0 \<le> (z * 8 + y) * 8" by simp_all
  with assms show ?thesis by (simp add: xyz_to_3d_index_def CMAP_SIZE_def)
qed

lemma colour_map_at_Some:
  "0 \<le> i \<Longrightarrow> i < 512 \<Longrightarrow> colour_map_at cmap i = Some (cmap (nat i))"
  by (simp add: colour_map_at_def CMAP_SIZE_def)

lemma predict_pixel_Some:
  assumes n: "norm_col dv colour = (n0, n1, n2)"
    and x: "0 \<le> cube_index n0" "cube_index n0 \<le> 6"
    and y: "0 \<le> cube_index n1" "cube_index n1 \<le> 6"
    and z: "0 \<le> cube_index n2" "cube_index n2 \<le> 6"
  shows "predict_pixel dv cmap reflectance colour \<noteq> None"
proof -
  let ?x = "cube_index n0" and ?y = "cube_index n1" and ?z = "cube_index n2"
  have r: "colour_map_at cmap (xyz_to_3d_index (?x + i) (?y + j) (?z + k) CMAP_SIZE)
           = Some (cmap (nat (xyz_to_3d_index (?x + i) (?y + j) (?z + k) CMAP_SIZE)))"
    if "i \<in> {0, 1}" "j \<in> {0, 1}" "k \<in> {0, 1}" for i j k
  proof -
    have "0 \<le> xyz_to_3d_index (?x + i) (?y + j) (?z + k) CMAP_SIZE
           \<and> xyz_to_3d_index (?x + i) (?y + j) (?z + k) CMAP_SIZE < 512"
      using that x y z by (intro xyz_in_range) auto
    then show ?thesis by (simp add: colour_map_at_Some)
  qed
  note rs = r [of 0 0 0, simplified] r [of 0 1 0, simplified] r [of 1 1 0, simplified]
    r [of 1 0 0, simplified] r [of 0 0 1, simplified] r [of 0 1 1, simplified]
    r [of 1 1 1, simplified] r [of 1 0 1, simplified]
  show ?thesis
    unfolding predict_pixel_def n prod.case Let_def rs option.case
    by (simp split: prod.splits)
qed


text \<open>
  \<^bold>\<open>C10.\<close> For every 8-bit pixel \<open>(b, g, r)\<close> the cube indices \<open>x, y, z\<close> computed
  by \<open>predict\<close> lie in \<open>0..6\<close>; a channel value of 255 gives index 6, because the
  single-precision quotient \<open>1 / CMAP_STEP\<close> rounds to \<open>14680063 / 2097152 < 7\<close>.
  Hence each of the eight colour-map indices \<open>xyz_to_3d_index (x or x + 1) (y or y + 1)
  (z or z + 1) 8\<close> lies in \<open>0..511\<close> and no read leaves the array: the pixel's
  prediction is defined. This holds for both readings of the vector quotient.
\<close>

theorem predict_in_bounds:
  fixes b g r :: "8 word" and dv :: vec_div
  defines "n \<equiv> norm_col dv (b, g, r)"
  defines "x \<equiv> cube_index (fst n)" and "y \<equiv> cube_index (fst (snd n))"
    and "z \<equiv> cube_index (snd (snd n))"
  shows "0 \<le> x \<and> x \<le> 6 \<and> 0 \<le> y \<and> y \<le> 6 \<and> 0 \<le> z \<and> z \<le> 6
    \<and> cube_index (fst (norm_col dv (255, g, r))) = 6
    \<and> list_all (\<lambda>(i, j, k). 0 \<le> xyz_to_3d_index (x + i) (y + j) (z + k) CMAP_SIZE
                   \<and> xyz_to_3d_index (x + i) (y + j) (z + k) CMAP_SIZE < 512)
         [(0, 0, 0), (0, 1, 0), (1, 1, 0), (1, 0, 0), (0, 0, 1), (0, 1, 1), (1, 1, 1), (1, 0, 1)]
    \<and> predict_pixel dv cmap reflectance (b, g, r) \<noteq> None"
proof -
  have nx: "fst n = scalar_div dv (of_nat (unat b)) 255"
    and ny: "fst (snd n) = scalar_div dv (of_nat (unat g)) 255"
    and nz: "snd (snd n) = scalar_div dv (of_nat (unat r)) 255"
    by (simp_all add: n_def norm_col_def vec_div_f_def)
  have hx: "0 \<le> x \<and> x \<le> 6" unfolding x_def nx by (rule cube_index_channel)
  have hy: "0 \<le> y \<and> y \<le> 6" unfolding y_def ny by (rule cube_index_channel)
  have hz: "0 \<le> z \<and> z \<le> 6" unfolding z_def nz by (rule cube_index_channel)
  have "fst (norm_col dv (255, g, r)) = scalar_div dv (of_nat (unat (255 :: 8 word))) 255"
    by (simp add: norm_col_def vec_div_f_def)
  then have w: "cube_index (fst (norm_col dv (255, g, r))) = 6"
    by (simp only: cube_index_255)
  have q: "0 \<le> xyz_to_3d_index (x + i) (y + j) (z + k) CMAP_SIZE
           \<and> xyz_to_3d_index (x + i) (y + j) (z + k) CMAP_SIZE < 512"
    if "i \<in> {0, 1}" "j \<in> {0, 1}" "k \<in> {0, 1}" for i j k
    using that hx hy hz by (intro xyz_in_range) auto
  have l: "list_all (\<lambda>(i, j, k). 0 \<le> xyz_to_3d_index (x + i) (y + j) (z + k) CMAP_SIZE
                   \<and> xyz_to_3d_index (x + i) (y + j) (z + k) CMAP_SIZE < 512)
         [(0, 0, 0), (0, 1, 0), (1, 1, 0), (1, 0, 0), (0, 0, 1), (0, 1, 1), (1, 1, 1), (1, 0, 1)]"
    using q [of 0 0 0] q [of 0 1 0] q [of 1 1 0] q [of 1 0 0]
      q [of 0 0 1] q [of 0 1 1] q [of 1 1 1] q [of 1 0 1]
    by simp
  have n3: "norm_col dv (b, g, r) = (fst n, fst (snd n), snd (snd n))" by (simp add: n_def)
  have p: "predict_pixel dv cmap reflectance (b, g, r) \<noteq> None"
    using hx hy hz by (intro predict_pixel_Some [OF n3]) (simp_all add: x_def y_def z_def)
  show ?thesis using hx hy hz w l p by simp
qed

lemma cube_index_128: "cube_index (fst (snd (norm_col Times_reciprocal (255, 128, 0)))) = 3"
  by code_simp

theorem predict_in_bounds_witness:
  "cube_index (fst (norm_col Times_reciprocal (255, 128, 0))) = 6
   \<and> cube_index (fst (snd (norm_col Times_reciprocal (255, 128, 0)))) = 3
   \<and> xyz_to_3d_index (6 + 1) (3 + 1) (0 + 1) CMAP_SIZE = 103
   \<and> predict_pixel Times_reciprocal (\<lambda>i. (0, 0, 0)) (1, 1, 1) (255, 128, 0) \<noteq> None"
proof -
  have a: "xyz_to_3d_index (6 + 1) (3 + 1) (0 + 1) CMAP_SIZE = 103"
    by (simp add: xyz_to_3d_index_def CMAP_SIZE_def)
  from predict_in_bounds [of Times_reciprocal 255 128 0 "\<lambda>i. (0, 0, 0)" "(1, 1, 1)"] a
    cube_index_128
  show ?thesis by simp
qed

subsection \<open>Prediction of a black image\<close>

lemma fl32_zero [simp]: "fl32 0 = 0"
  by (simp add: fl32_def)

lemma lerp_zero:
  assumes "fl32 a = a" "fl32 b = b" "fl32 c = c"
  shows "lerp (a, b, c) w 0 = (a, b, c)"
  using assms by (cases w) (simp add: lerp_def vec_add_def vec_mul_f_def fl32_one)

lemma tlerp_zero:
  assumes "fl32 a = a" "fl32 b = b" "fl32 c = c"
  shows "tlerp (a, b, c) v010 v110 v100 v001 v011 v111 v101 0 0 0 = (a, b, c)"
  unfolding tlerp_def blerp_def
  by (simp only: lerp_zero [OF assms])

lemma norm_col_black: "norm_col dv (0, 0, 0) = (0, 0, 0)"
  by (cases dv) (simp_all add: norm_col_def vec_div_f_def scalar_div_def)

lemma cube_index_zero: "cube_index 0 = 0"
  by (simp add: cube_index_def trunc_int_def)

lemma predict_pixel_black:
  assumes "cmap 0 = (b0, g0, r0)" and "fl32 b0 = b0" "fl32 g0 = g0" "fl32 r0 = r0"
  shows "predict_pixel dv cmap (rb, rg, rr) (0, 0, 0)
           = Some (fl32 (b0 * rb), fl32 (g0 * rg), fl32 (r0 * rr))"
proof -
  have f: "vec_div_f dv (vec_sub (0, 0, 0) (vec_mul_f (0, 0, 0) CMAP_STEP)) CMAP_STEP = (0, 0, 0)"
    by (cases dv) (simp_all add: vec_div_f_def vec_sub_def vec_mul_f_def scalar_div_def)
  have i: "colour_map_at cmap (xyz_to_3d_index i j k CMAP_SIZE)
             = Some (cmap (nat (xyz_to_3d_index i j k CMAP_SIZE)))"
    if "i \<in> {0, 1}" "j \<in> {0, 1}" "k \<in> {0, 1}" for i j k
  proof -
    have "0 \<le> xyz_to_3d_index i j k CMAP_SIZE \<and> xyz_to_3d_index i j k CMAP_SIZE < 512"
      using that by (intro xyz_in_range) auto
    then show ?thesis by (simp add: colour_map_at_Some)
  qed
  have z: "nat (xyz_to_3d_index 0 0 0 CMAP_SIZE) = 0" by (simp add: xyz_to_3d_index_def)
  note lk = i [of 0 0 0, simplified] i [of 0 1 0, simplified] i [of 1 1 0, simplified]
    i [of 1 0 0, simplified] i [of 0 0 1, simplified] i [of 0 1 1, simplified]
    i [of 1 1 1, simplified] i [of 1 0 1, simplified]
  show ?thesis
    unfolding predict_pixel_def norm_col_black prod.case Let_def cube_index_zero
    apply (simp only: of_int_0 f add_0 lk option.case prod.case z assms(1) fst_conv snd_conv)
    apply (simp only: tlerp_zero [OF assms(2-4)] prod.case)
    done
qed


lemma mat_positions_iff:
  "(row, col) \<in> set (mat_positions m) \<longleftrightarrow> row < mat_rows m \<and> col < mat_cols m"
  by (auto simp: mat_positions_def image_iff)

text \<open>
  \<^bold>\<open>C7.\<close> For a colour map whose entry 0 holds single-precision values, a reflectance
  map covering the image, and an image that is black at every position, \<open>predict\<close>
  yields at each position the product, channel by channel and rounded to single precision as
  the program's multiplication is, of the colour-map entry at index \<open>(0, 0, 0)\<close> and
  the reflectance of that position. The other colour-map entries do not matter.
\<close>

theorem predict_black:
  assumes lut0: "cmap 0 = (b0, g0, r0)" and f32: "fl32 b0 = b0" "fl32 g0 = g0" "fl32 r0 = r0"
    and black: "list_all (\<lambda>(row, col). mat_at src row col = (0, 0, 0)) (mat_positions src)"
    and dims: "mat_rows src \<le> mat_rows reflectance_map" "mat_cols src \<le> mat_cols reflectance_map"
    and pos: "row < mat_rows src" "col < mat_cols src"
    and refl: "mat_at reflectance_map row col = (rb, rg, rr)"
  shows "\<exists>dst. predict dv cmap reflectance_map src = Some dst
           \<and> mat_rows dst = mat_rows src \<and> mat_cols dst = mat_cols src
           \<and> mat_at dst row col = (fl32 (b0 * rb), fl32 (g0 * rg), fl32 (r0 * rr))"
proof -
  have px: "predict_pixel dv cmap (mat_at reflectance_map i j) (mat_at src i j)
        = Some (case mat_at reflectance_map i j of
                  (x, y, z) \<Rightarrow> (fl32 (b0 * x), fl32 (g0 * y), fl32 (r0 * z)))"
    if "i < mat_rows src" "j < mat_cols src" for i j
  proof -
    from that black have "mat_at src i j = (0, 0, 0)"
      by (auto simp: list_all_iff mat_positions_iff)
    then show ?thesis
      using predict_pixel_black [of cmap b0 g0 r0 dv] lut0 f32
      by (cases "mat_at reflectance_map i j") simp
  qed
  have all: "list_all (\<lambda>(r, c). predict_pixel dv cmap (mat_at reflectance_map r c)
                                    (mat_at src r c) \<noteq> None) (mat_positions src)"
  proof -
    have "predict_pixel dv cmap (mat_at reflectance_map i j) (mat_at src i j) \<noteq> None"
      if "i < mat_rows src" "j < mat_cols src" for i j
      by (simp only: px [OF that] option.distinct not_False_eq_True)
    then show ?thesis unfolding list_all_iff by (auto simp: mat_positions_iff)
  qed
  show ?thesis
    using dims all px [OF pos] refl by (simp add: predict_def not_less)
qed

theorem predict_black_witness:
  "map_option (\<lambda>dst. (mat_rows dst, mat_cols dst, mat_at dst 1 0))
     (predict Times_reciprocal (\<lambda>i. if i = 0 then (1 / 2, 3, 5 / 4) else (7, 7, 7))
        \<lparr>mat_rows = 2, mat_cols = 2, mat_at = (\<lambda>r c. (1, 1 / 2, 2))\<rparr>
        \<lparr>mat_rows = 2, mat_cols = 1, mat_at = (\<lambda>r c. (0, 0, 0))\<rparr>)
   = Some (2, 1, (1 / 2, 3 / 2, 5 / 2))"
proof -
  have a: "fl32 (1 / 2) = 1 / 2" "fl32 3 = 3" "fl32 (5 / 4) = 5 / 4" "fl32 (3 / 2) = 3 / 2"
    "fl32 (5 / 2) = 5 / 2"
    by code_simp+
  have b: "list_all (\<lambda>(row, col). mat_at \<lparr>mat_rows = 2, mat_cols = 1,
        mat_at = (\<lambda>r c. (0 :: 8 word, 0 :: 8 word, 0 :: 8 word))\<rparr> row col = (0, 0, 0))
      (mat_positions \<lparr>mat_rows = 2, mat_cols = 1,
        mat_at = (\<lambda>r c. (0 :: 8 word, 0 :: 8 word, 0 :: 8 word))\<rparr>)"
    by (simp add: list_all_iff)
  from predict_black [of "\<lambda>i. if i = 0 then (1 / 2, 3, 5 / 4) else (7, 7, 7)" "1 / 2" 3 "5 / 4"
      "\<lparr>mat_rows = 2, mat_cols = 1, mat_at = (\<lambda>r c. (0, 0, 0))\<rparr>"
      "\<lparr>mat_rows = 2, mat_cols = 2, mat_at = (\<lambda>r c. (1, 1 / 2, 2))\<rparr>"
      1 0 1 "1 / 2" 2 Times_reciprocal] a b
  show ?thesis by auto
qed

subsection \<open>The touch test\<close>

text \<open>The integer square root, the count of non-zero pixels, and the two thresholds.\<close>

lemma sqrt_search_le: "sqrt_search n m * sqrt_search n m \<le> n"
  by (induction m) simp_all

lemma sqrt_search_bound: "sqrt_search n m \<le> m"
  by (induction m) auto

lemma sqrt_search_greatest_aux: "sqrt_search n m \<le> sqrt_search n (Suc m)"
  using sqrt_search_bound [of n m] by simp

lemma sqrt_search_greatest: "k \<le> m \<Longrightarrow> k * k \<le> n \<Longrightarrow> k \<le> sqrt_search n m"
proof (induction m)
  case 0
  then show ?case by simp
next
  case (Suc m)
  show ?case
  proof (cases "k = Suc m")
    case True
    with Suc.prems show ?thesis by simp
  next
    case False
    with Suc.prems have "k \<le> m" by simp
    from Suc.IH [OF this Suc.prems(2)] have "k \<le> sqrt_search n m" .
    moreover have "sqrt_search n m \<le> sqrt_search n (Suc m)"
      using sqrt_search_greatest_aux [of n m] by simp
    ultimately show ?thesis by (rule order_trans)
  qed
qed

lemma isqrt_bounds: "isqrt n * isqrt n \<le> n \<and> n < (isqrt n + 1) * (isqrt n + 1)"
proof
  show "isqrt n * isqrt n \<le> n" unfolding isqrt_def by (rule sqrt_search_le)
  show "n < (isqrt n + 1) * (isqrt n + 1)"
  proof (rule ccontr)
    assume "\<not> n < (isqrt n + 1) * (isqrt n + 1)"
    then have le: "(isqrt n + 1) * (isqrt n + 1) \<le> n" by simp
    have "isqrt n + 1 \<le> (isqrt n + 1) * (isqrt n + 1)" by simp
    then have "isqrt n + 1 \<le> n" using le by (rule order_trans)
    from sqrt_search_greatest [OF this le] show False by (simp add: isqrt_def)
  qed
qed

lemma isqrt_floor_sqrt: "int (isqrt n) = \<lfloor>sqrt (real n)\<rfloor>"
proof -
  from isqrt_bounds [of n]
  have a: "real (isqrt n * isqrt n) \<le> real n" and b: "real n < real ((isqrt n + 1) * (isqrt n + 1))"
    by (simp_all only: of_nat_le_iff of_nat_less_iff)
  have sq: "sqrt (real (k * k)) = real k" for k
    unfolding of_nat_mult real_sqrt_abs2 by simp
  have "real (isqrt n) = sqrt (real (isqrt n * isqrt n))" by (simp only: sq)
  also have "\<dots> \<le> sqrt (real n)" using a by (simp only: real_sqrt_le_iff)
  finally have l: "real (isqrt n) \<le> sqrt (real n)" .
  have "sqrt (real n) < sqrt (real ((isqrt n + 1) * (isqrt n + 1)))"
    using b by (simp only: real_sqrt_less_iff)
  also have "\<dots> = real (isqrt n + 1)" by (simp only: sq)
  finally have u: "sqrt (real n) < real (isqrt n) + 1" by simp
  from l u have "\<lfloor>sqrt (real n)\<rfloor> = int (isqrt n)" by (simp add: floor_eq_iff)
  then show ?thesis by simp
qed

lemma countNonZero_card:
  "countNonZero m roi =
     card {(y, x). rect_y roi \<le> y \<and> y < rect_y roi + rect_height roi
                 \<and> rect_x roi \<le> x \<and> x < rect_x roi + rect_width roi
                 \<and> mat_at m (nat y) (nat x) \<noteq> 0}"
proof -
  let ?ps = "List.product [rect_y roi..rect_y roi + rect_height roi - 1]
                     [rect_x roi..rect_x roi + rect_width roi - 1]"
  have d: "distinct ?ps" by (simp add: distinct_product)
  have "countNonZero m roi = card ({p. case p of (y, x) \<Rightarrow> mat_at m (nat y) (nat x) \<noteq> 0} \<inter> set ?ps)"
    unfolding countNonZero_def by (simp only: distinct_length_filter [OF d])
  also have "{p. case p of (y, x) \<Rightarrow> mat_at m (nat y) (nat x) \<noteq> 0} \<inter> set ?ps =
     {(y, x). rect_y roi \<le> y \<and> y < rect_y roi + rect_height roi
                 \<and> rect_x roi \<le> x \<and> x < rect_x roi + rect_width roi
                 \<and> mat_at m (nat y) (nat x) \<noteq> 0}"
    by auto
  finally show ?thesis .
qed

lemma countNonZero_le_area:
  assumes "0 \<le> rect_width roi" "0 \<le> rect_height roi"
  shows "int (countNonZero m roi) \<le> rect_height roi * rect_width roi"
proof -
  have "countNonZero m roi \<le> length (List.product [rect_y roi..rect_y roi + rect_height roi - 1]
                     [rect_x roi..rect_x roi + rect_width roi - 1])"
    unfolding countNonZero_def by (rule length_filter_le)
  also have "\<dots> = nat (rect_height roi) * nat (rect_width roi)"
    by simp
  finally have "int (countNonZero m roi) \<le> int (nat (rect_height roi) * nat (rect_width roi))"
    by (simp only: of_nat_le_iff)
  with assms show ?thesis by simp
qed


lemma fl32_threshold_20: "fl32 (1 / 5) = 13421773 / 67108864"
  by code_simp

lemma fl32_above_20: "fl32 (6710887 / 33554432) = 6710887 / 33554432"
  by code_simp

lemma fl32_threshold_30: "fl32 (3 / 10) = 5033165 / 16777216"
  by code_simp

lemma fl32_above_30: "fl32 (10066331 / 33554432) = 10066331 / 33554432"
  by code_simp

lemma fl32_of_nat_exact: "n \<le> 2 ^ 21 \<Longrightarrow> fl32 (of_nat n) = of_nat n"
  using fl32_of_int_exact [of "int n"] by simp

lemma ratio_le_20:
  assumes "s \<le> 2 ^ 21" and "f \<le> 2 ^ 21"
  shows "ratio_le s f 20 \<longleftrightarrow> f \<noteq> 0 \<and> (of_nat s :: rat) / of_nat f \<le> 20 / 100"
proof (cases "f = 0")
  case True
  then show ?thesis by (simp add: ratio_le_def)
next
  case False
  then have fpos: "(0::rat) < of_nat f" by simp
  have es: "fl32 (of_nat s) = of_nat s" by (rule fl32_of_nat_exact [OF assms(1)])
  have ef: "fl32 (of_nat f) = of_nat f" by (rule fl32_of_nat_exact [OF assms(2)])
  have t: "fl32 (fl32 (of_int 20) / fl32 100) = 13421773 / 67108864"
    using fl32_of_int_exact [of 20] fl32_of_int_exact [of 100] by (simp add: fl32_threshold_20)
  have r: "ratio_le s f 20 \<longleftrightarrow> fl32 (of_nat s / of_nat f) \<le> 13421773 / 67108864"
    unfolding ratio_le_def es ef t using False by simp
  have q0: "(0::rat) \<le> of_nat s / of_nat f" by simp
  show ?thesis
  proof (cases "(of_nat s :: rat) / of_nat f \<le> 1 / 5")
    case True
    from fl32_mono [OF q0 True] have "fl32 (of_nat s / of_nat f) \<le> 13421773 / 67108864"
      by (simp only: fl32_threshold_20)
    with True False r show ?thesis by simp
  next
    case gt: False
    then have "(of_nat f :: rat) < 5 * of_nat s" using fpos by (simp add: field_simps)
    then have "(of_nat f :: rat) < of_nat (5 * s)" by simp
    then have "f < 5 * s" by (simp only: of_nat_less_iff)
    then have "33554435 * f \<le> 33554432 * (5 * s)" using assms(2) by simp
    then have "6710887 * f \<le> 33554432 * s" by simp
    then have "(of_nat (6710887 * f) :: rat) \<le> of_nat (33554432 * s)"
      by (simp only: of_nat_le_iff)
    then have b: "(6710887 / 33554432 :: rat) \<le> of_nat s / of_nat f"
      using fpos by (simp add: field_simps)
    have "(0::rat) \<le> 6710887 / 33554432" by simp
    from fl32_mono [OF this b] have "6710887 / 33554432 \<le> fl32 (of_nat s / of_nat f)"
      by (simp only: fl32_above_20)
    then have "\<not> fl32 (of_nat s / of_nat f) \<le> 13421773 / 67108864" by simp
    with gt r show ?thesis by simp
  qed
qed

lemma ratio_le_30:
  assumes "s \<le> 2 ^ 21" and "f \<le> 2 ^ 21"
  shows "ratio_le s f 30 \<longleftrightarrow> f \<noteq> 0 \<and> (of_nat s :: rat) / of_nat f \<le> 30 / 100"
proof (cases "f = 0")
  case True
  then show ?thesis by (simp add: ratio_le_def)
next
  case False
  then have fpos: "(0::rat) < of_nat f" by simp
  have es: "fl32 (of_nat s) = of_nat s" by (rule fl32_of_nat_exact [OF assms(1)])
  have ef: "fl32 (of_nat f) = of_nat f" by (rule fl32_of_nat_exact [OF assms(2)])
  have t: "fl32 (fl32 (of_int 30) / fl32 100) = 5033165 / 16777216"
    using fl32_of_int_exact [of 30] fl32_of_int_exact [of 100] by (simp add: fl32_threshold_30)
  have r: "ratio_le s f 30 \<longleftrightarrow> fl32 (of_nat s / of_nat f) \<le> 5033165 / 16777216"
    unfolding ratio_le_def es ef t using False by simp
  have q0: "(0::rat) \<le> of_nat s / of_nat f" by simp
  show ?thesis
  proof (cases "(of_nat s :: rat) / of_nat f \<le> 3 / 10")
    case True
    from fl32_mono [OF q0 True] have "fl32 (of_nat s / of_nat f) \<le> 5033165 / 16777216"
      by (simp only: fl32_threshold_30)
    with True False r show ?thesis by simp
  next
    case gt: False
    then have "3 * (of_nat f :: rat) < 10 * of_nat s" using fpos by (simp add: field_simps)
    then have "(of_nat (3 * f) :: rat) < of_nat (10 * s)" by simp
    then have "3 * f < 10 * s" by (simp only: of_nat_less_iff)
    then have "100663310 * f \<le> 33554432 * (10 * s)" using assms(2) by simp
    then have "10066331 * f \<le> 33554432 * s" by simp
    then have "(of_nat (10066331 * f) :: rat) \<le> of_nat (33554432 * s)"
      by (simp only: of_nat_le_iff)
    then have b: "(10066331 / 33554432 :: rat) \<le> of_nat s / of_nat f"
      using fpos by (simp add: field_simps)
    have "(0::rat) \<le> 10066331 / 33554432" by simp
    from fl32_mono [OF this b] have "10066331 / 33554432 \<le> fl32 (of_nat s / of_nat f)"
      by (simp only: fl32_above_30)
    then have "\<not> fl32 (of_nat s / of_nat f) \<le> 5033165 / 16777216" by simp
    with gt r show ?thesis by simp
  qed
qed

lemma pt_dot_self_nonneg: "0 \<le> pt_dot v v"
  by (simp add: pt_dot_def)

lemma norm_floor_sqrt: "norm_floor v = \<lfloor>sqrt (real_of_int (pt_dot v v))\<rfloor>"
proof -
  have "real (nat (pt_dot v v)) = real_of_int (pt_dot v v)"
    using pt_dot_self_nonneg [of v] by simp
  then show ?thesis by (simp add: norm_floor_def isqrt_floor_sqrt)
qed

lemma norm_floor_nonneg: "0 \<le> norm_floor v"
  by (simp add: norm_floor_def)

lemma touch_roi:
  fixes cols rows :: nat
  assumes sz: "2 \<le> cols" "2 \<le> rows"
    and inside: "0 \<le> cx" "cx < int cols" "0 \<le> cy" "cy < int rows"
    and r: "7 \<le> r"
  defines "roi \<equiv> Rect (max (cx - r) 0, max (cy - r) 0)
                      (min (cx + r) (int cols - 2), min (cy + r) (int rows - 2))"
  shows "rect_x roi = max (cx - r) 0" and "rect_y roi = max (cy - r) 0"
    and "rect_x roi + rect_width roi = min (cx + r) (int cols - 2)"
    and "rect_y roi + rect_height roi = min (cy + r) (int rows - 2)"
    and "0 \<le> rect_width roi" and "0 \<le> rect_height roi"
    and "rect_width roi \<le> int cols" and "rect_height roi \<le> int rows"
  using assms by (auto simp: Rect_def min_def max_def)


text \<open>
  \<^bold>\<open>C3\<close> (as amended). For the selected fingertip with tip \<open>t\<close> and centre of mass
  \<open>(cx, cy)\<close> inside a frame of \<open>cols\<close> by \<open>rows\<close> pixels (at least 2 by 2, at most
  \<open>2\<^sup>2\<^sup>1\<close> pixels, both masks of that size), let \<open>r = \<lfloor>\<parallel>com - t\<parallel>\<rfloor> + 7\<close> and let the region be the
  square of side \<open>2 r\<close> about the centre of mass clipped to \<open>[0, cols - 2) \<times> [0, rows - 2)\<close>:
  the last two columns and rows of the frame are never counted. With \<open>shadow\<close> and
  \<open>foreground\<close> the numbers of non-zero pixels of the two masks in that region and
  \<open>\<rho>\<close> their quotient, the decider returns a touch at \<open>t\<close> iff
  \<open>foreground \<noteq> 0\<close> and \<open>\<rho> \<le> 0.20\<close>, a hover at \<open>t\<close> iff \<open>foreground \<noteq> 0\<close> and
  \<open>0.20 < \<rho> \<le> 0.30\<close>, and no action otherwise; the selected fingertip is remembered in
  each case. The single-precision comparisons of the program agree with the exact ones
  for counts up to \<open>2\<^sup>2\<^sup>1\<close>.
\<close>

theorem touch_decision:
  fixes cols rows :: nat
  assumes sel: "chosen_fingertip (finger_id last_fingertip) fingertips = Some chosen"
    and tip: "point chosen = t" and cm: "com chosen = (cx, cy)"
    and dims: "mat_cols shadow_mask = cols" "mat_rows shadow_mask = rows"
      "mat_cols foreground_mask = cols" "mat_rows foreground_mask = rows"
    and sz: "2 \<le> cols" "2 \<le> rows" "cols * rows \<le> 2 ^ 21"
    and inside: "0 \<le> cx" "cx < int cols" "0 \<le> cy" "cy < int rows"
  defines "r \<equiv> \<lfloor>sqrt (real_of_int (pt_dot (pt_sub (cx, cy) t) (pt_sub (cx, cy) t)))\<rfloor> + 7"
  defines "shadow \<equiv> card {(y, x). max (cy - r) 0 \<le> y \<and> y < min (cy + r) (int rows - 2)
                         \<and> max (cx - r) 0 \<le> x \<and> x < min (cx + r) (int cols - 2)
                         \<and> mat_at shadow_mask (nat y) (nat x) \<noteq> 0}"
  defines "foreground \<equiv> card {(y, x). max (cy - r) 0 \<le> y \<and> y < min (cy + r) (int rows - 2)
                         \<and> max (cx - r) 0 \<le> x \<and> x < min (cx + r) (int cols - 2)
                         \<and> mat_at foreground_mask (nat y) (nat x) \<noteq> 0}"
  shows "find_touch_action fingertips foreground_mask shadow_mask last_fingertip =
     Inr (if foreground \<noteq> 0 \<and> (of_nat shadow :: rat) / of_nat foreground \<le> 20 / 100
          then Some (t, True)
          else if foreground \<noteq> 0 \<and> (of_nat shadow :: rat) / of_nat foreground \<le> 30 / 100
          then Some (t, False)
          else None,
          chosen)"
proof -
  have rn: "norm_floor (pt_sub (cx, cy) t) + 7 = r"
    by (simp add: r_def norm_floor_sqrt)
  have r7: "7 \<le> r" using norm_floor_nonneg [of "pt_sub (cx, cy) t"] rn by simp
  define roi where "roi = Rect (max (cx - r) 0, max (cy - r) 0)
                      (min (cx + r) (int cols - 2), min (cy + r) (int rows - 2))"
  note R = touch_roi [OF sz(1,2) inside r7, folded roi_def]
  have in_s: "roi_inside shadow_mask roi" and in_f: "roi_inside foreground_mask roi"
    using R by (auto simp: roi_inside_def dims)
  have cs: "countNonZero shadow_mask roi = shadow"
    unfolding countNonZero_card shadow_def by (simp only: R(3) R(4)) (simp only: R(1) R(2))
  have cf: "countNonZero foreground_mask roi = foreground"
    unfolding countNonZero_card foreground_def by (simp only: R(3) R(4)) (simp only: R(1) R(2))
  have area: "rect_height roi * rect_width roi \<le> 2 ^ 21"
  proof -
    have "rect_height roi * rect_width roi \<le> int rows * int cols"
      using R(5-8) by (intro mult_mono) simp_all
    also have "\<dots> = int (cols * rows)" by simp
    also have "\<dots> \<le> int (2 ^ 21)" using sz(3) by (simp only: of_nat_le_iff)
    finally show ?thesis by simp
  qed
  have bs: "shadow \<le> 2 ^ 21"
    using countNonZero_le_area [OF R(5,6), of shadow_mask] area cs by simp
  have bf: "foreground \<le> 2 ^ 21"
    using countNonZero_le_area [OF R(5,6), of foreground_mask] area cf by simp
  show ?thesis
    unfolding find_touch_action_def sel option.case Let_def tip cm fst_conv snd_conv rn dims
      roi_def [symmetric]
    by (simp only: in_s in_f cs cf ratio_le_20 [OF bs bf] ratio_le_30 [OF bs bf]
        simp_thms if_True if_False split: if_splits) auto
qed

lemma bar_eval:
  "find_touch_action [bar_finger] bar_foreground bar_shadow no_fingertip
     = Inr (Some ((30, 20), True), bar_finger)"
  by code_simp

lemma bar_selected: "chosen_fingertip (finger_id no_fingertip) [bar_finger] = Some bar_finger"
  by code_simp

theorem touch_decision_witness:
  "find_touch_action [bar_finger] bar_foreground bar_shadow no_fingertip
     = Inr (Some ((30, 20), True), bar_finger)
   \<and> card {(y, x). 10 \<le> y \<and> y < 30 \<and> 23 \<le> x \<and> x < 38
              \<and> mat_at bar_foreground (nat y) (nat x) \<noteq> 0} \<noteq> 0
   \<and> (of_nat (card {(y, x). 10 \<le> y \<and> y < 30 \<and> 23 \<le> x \<and> x < 38
              \<and> mat_at bar_shadow (nat y) (nat x) \<noteq> 0}) :: rat)
       / of_nat (card {(y, x). 10 \<le> y \<and> y < 30 \<and> 23 \<le> x \<and> x < 38
              \<and> mat_at bar_foreground (nat y) (nat x) \<noteq> 0}) \<le> 20 / 100"
proof -
  have "sqrt (3 * 3) = 3" by (simp only: real_sqrt_abs2)
  then have s9: "sqrt 9 = 3" by simp
  have r: "\<lfloor>sqrt (real_of_int (pt_dot (pt_sub (33, 20) (30, 20)) (pt_sub (33, 20) (30, 20))))\<rfloor> + 7
             = 10"
    by (simp add: pt_dot_def pt_sub_def s9)
  have p: "point bar_finger = (30, 20)" "com bar_finger = (33, 20)"
    by (simp_all add: bar_finger_def)
  have d: "mat_cols bar_shadow = 40" "mat_rows bar_shadow = 40"
    "mat_cols bar_foreground = 40" "mat_rows bar_foreground = 40"
    by (simp_all add: bar_shadow_def bar_foreground_def)
  note t = touch_decision [OF bar_selected p d, unfolded r, simplified, unfolded bar_eval]
  from t show ?thesis using bar_eval by (auto split: if_splits)
qed

text \<open>
  The specification clips the region to the frame. For the finger entering the 40 by 40
  frame from the right, the program's region stops at column 37: it counts 5 shadow and 40
  foreground pixels and reports a touch. The region clipped to the frame holds 15 shadow and
  50 foreground pixels, \<open>\<rho> = 0.30\<close>, a hover.
\<close>

theorem touch_roi_counterexample:
  "find_touch_action [bar_finger] bar_foreground bar_shadow no_fingertip
     = Inr (Some ((30, 20), True), bar_finger)
   \<and> spec_touch_decision bar_finger bar_foreground bar_shadow = Some ((30, 20), False)"
  by code_simp

subsection \<open>Which fingertip is selected\<close>

lemma select_loop_mem:
  "select_loop last_id fs oldest chosen = Some g \<Longrightarrow>
   (chosen = Some g) \<or> (g \<in> set fs \<and> (finger_id g = last_id \<or> oldest \<le> age g))"
proof (induction fs arbitrary: oldest chosen)
  case Nil
  then show ?case by simp
next
  case (Cons f fs)
  show ?case
  proof (cases "finger_id f = last_id")
    case True
    with Cons.prems show ?thesis by simp
  next
    case False
    show ?thesis
    proof (cases "oldest \<le> age f")
      case True
      with False Cons.prems have "select_loop last_id fs (age f) (Some f) = Some g" by simp
      from Cons.IH [OF this] True show ?thesis by auto
    next
      case F: False
      with False Cons.prems have "select_loop last_id fs oldest chosen = Some g" by simp
      from Cons.IH [OF this] show ?thesis by auto
    qed
  qed
qed

text \<open>
  The selection loop relative to \<open>last_id\<close>, the id held in \<^verbatim>\<open>last_fingertip\<close>: if some
  candidate has that id, the first such candidate is selected; if none has, the selected
  candidate is one of greatest age among all candidates, provided some age is at least 5;
  if every candidate has another id and an age below 5, nothing is selected. An action
  returned by \<open>find_touch_action\<close> is at the point of the selected candidate.
\<close>

lemma selection_rule:
  fixes last_fingertip :: fingertip and fingertips :: "fingertip list"
  defines "last_id \<equiv> finger_id last_fingertip"
  defines "sel \<equiv> chosen_fingertip last_id fingertips"
  shows "((\<exists>f \<in> set fingertips. finger_id f = last_id) \<longrightarrow>
            sel = find (\<lambda>f. finger_id f = last_id) fingertips
            \<and> (\<exists>g \<in> set fingertips. sel = Some g \<and> finger_id g = last_id))
       \<and> ((\<forall>f \<in> set fingertips. finger_id f \<noteq> last_id) \<and> (\<exists>f \<in> set fingertips. 5 \<le> age f) \<longrightarrow>
            (\<exists>g \<in> set fingertips. sel = Some g \<and> 5 \<le> age g \<and> (\<forall>f \<in> set fingertips. age f \<le> age g)))
       \<and> ((\<forall>f \<in> set fingertips. finger_id f \<noteq> last_id \<and> age f < 5) \<longrightarrow> sel = None)
       \<and> (\<forall>g. sel = Some g \<longrightarrow> g \<in> set fingertips \<and> (finger_id g = last_id \<or> 5 \<le> age g))
       \<and> (\<forall>p touch l. find_touch_action fingertips foreground_mask shadow_mask last_fingertip
                          = Inr (Some (p, touch), l) \<longrightarrow>
              l \<in> set fingertips \<and> p = point l \<and> sel = Some l
              \<and> (finger_id l = last_id \<or> 5 \<le> age l))"
proof -
  have a: "sel = find (\<lambda>f. finger_id f = last_id) fingertips
            \<and> (\<exists>g \<in> set fingertips. sel = Some g \<and> finger_id g = last_id)"
    if m: "\<exists>f \<in> set fingertips. finger_id f = last_id"
  proof -
    have e: "sel = find (\<lambda>f. finger_id f = last_id) fingertips"
      unfolding sel_def chosen_fingertip_def by (rule select_loop_id_match [OF m])
    from m have "find (\<lambda>f. finger_id f = last_id) fingertips \<noteq> None"
      by (auto simp: find_None_iff)
    then obtain g where "find (\<lambda>f. finger_id f = last_id) fingertips = Some g"
      by blast
    then have "g \<in> set fingertips \<and> finger_id g = last_id"
      by (auto simp: find_Some_iff)
    with e \<open>find _ fingertips = Some g\<close> show ?thesis by auto
  qed
  have b: "\<exists>g \<in> set fingertips. sel = Some g \<and> 5 \<le> age g \<and> (\<forall>f \<in> set fingertips. age f \<le> age g)"
    if "\<forall>f \<in> set fingertips. finger_id f \<noteq> last_id" "\<exists>f \<in> set fingertips. 5 \<le> age f"
    using select_loop_no_match [OF that(1), of MIN_FINGER_AGE None] that(2)
    by (simp add: sel_def chosen_fingertip_def MIN_FINGER_AGE_def)
  have c: "sel = None" if "\<forall>f \<in> set fingertips. finger_id f \<noteq> last_id \<and> age f < 5"
  proof -
    from that have n: "\<forall>f \<in> set fingertips. finger_id f \<noteq> last_id" by simp
    from that have "\<not> (\<exists>f \<in> set fingertips. MIN_FINGER_AGE \<le> age f)"
      by (auto simp: MIN_FINGER_AGE_def not_le)
    with select_loop_no_match [OF n, of MIN_FINGER_AGE None]
    show ?thesis by (simp add: sel_def chosen_fingertip_def)
  qed
  have d: "g \<in> set fingertips \<and> (finger_id g = last_id \<or> 5 \<le> age g)" if "sel = Some g" for g
    using select_loop_mem [of last_id fingertips MIN_FINGER_AGE None g] that
    by (simp add: sel_def chosen_fingertip_def MIN_FINGER_AGE_def)
  have e: "l \<in> set fingertips \<and> p = point l \<and> sel = Some l
              \<and> (finger_id l = last_id \<or> 5 \<le> age l)"
    if "find_touch_action fingertips foreground_mask shadow_mask last_fingertip
          = Inr (Some (p, touch), l)" for p touch l
  proof -
    from that have "sel = Some l \<and> p = point l"
      unfolding find_touch_action_def sel_def last_id_def Let_def
      by (auto split: option.splits if_splits)
    with d [of l] show ?thesis by simp
  qed
  show ?thesis using a b c d e by blast
qed

subsection \<open>The first fingertip\<close>










subsection \<open>Calibration capture\<close>

lemma sum_list_upt_Suc_shift:
  "(\<Sum>i \<leftarrow> [0..<Suc n]. f i) = f 0 + (\<Sum>i \<leftarrow> [0..<n]. (f (Suc i) :: int))"
proof -
  have "[0..<Suc n] = 0 # map Suc [0..<n]"
    by (simp add: upt_conv_Cons map_Suc_upt del: upt_Suc)
  then show ?thesis by (simp add: comp_def del: upt_Suc)
qed

lemma average_loop_result:
  "\<forall>i<n. length (m_Stream w (consumed w + i)) = length average \<Longrightarrow>
   average_loop n average w =
     Inr (map (\<lambda>j. average ! j + (\<Sum>i \<leftarrow> [0..<n]. int (unat (m_Stream w (consumed w + i) ! j))))
              [0..<length average],
          w\<lparr>consumed := consumed w + n, events := events w @ replicate n Next_frame\<rparr>)"
proof (induction n arbitrary: average w)
  case 0
  show ?case by (simp add: map_nth)
next
  case (Suc n)
  define dst where "dst = m_Stream w (consumed w)"
  define w' where "w' = w\<lparr>consumed := consumed w + 1, events := events w @ [Next_frame]\<rparr>"
  define average' where "average' = map2 (\<lambda>a p. a + int (unat p)) average dst"
  have len: "length dst = length average"
    using Suc.prems [rule_format, of 0] by (simp add: dst_def)
  have len': "length average' = length average"
    by (simp add: average'_def len)
  have step: "average_loop (Suc n) average w = average_loop n average' w'"
    by (simp add: next_frame_def len average'_def w'_def dst_def [symmetric])
  have pre: "\<forall>i<n. length (m_Stream w' (consumed w' + i)) = length average'"
  proof (intro allI impI)
    fix i assume "i < n"
    then have "length (m_Stream w (consumed w + Suc i)) = length average"
      using Suc.prems [rule_format, of "Suc i"] by simp
    then show "length (m_Stream w' (consumed w' + i)) = length average'"
      by (simp add: w'_def len')
  qed
  have nth: "average' ! j = average ! j + int (unat (m_Stream w (consumed w) ! j))"
    if "j < length average" for j
    using that len by (simp add: average'_def dst_def)
  have m: "map (\<lambda>j. average' ! j + (\<Sum>i \<leftarrow> [0..<n]. int (unat (m_Stream w' (consumed w' + i) ! j))))
             [0..<length average']
         = map (\<lambda>j. average ! j + (\<Sum>i \<leftarrow> [0..<Suc n]. int (unat (m_Stream w (consumed w + i) ! j))))
             [0..<length average]"
    unfolding len'
  proof (rule map_cong [OF refl])
    fix j assume "j \<in> set [0..<length average]"
    then have j: "j < length average" by simp
    show "average' ! j + (\<Sum>i \<leftarrow> [0..<n]. int (unat (m_Stream w' (consumed w' + i) ! j)))
        = average ! j + (\<Sum>i \<leftarrow> [0..<Suc n]. int (unat (m_Stream w (consumed w + i) ! j)))"
      by (subst sum_list_upt_Suc_shift) (simp add: nth [OF j] w'_def)
  qed
  have r: "w'\<lparr>consumed := consumed w' + n, events := events w' @ replicate n Next_frame\<rparr>
         = w\<lparr>consumed := consumed w + Suc n, events := events w @ replicate (Suc n) Next_frame\<rparr>"
    by (simp add: w'_def)
  show ?case
    unfolding step Suc.IH [OF pre] m r ..
qed

lemma burn_frames:
  "snd (next_frame (snd (next_frame (snd (next_frame (drop_frame (drop_frame (drop_frame
     (w\<lparr>events := events w @ [Imshow pattern, Sleep_for ms]\<rparr>)))))))))
   = w\<lparr>consumed := consumed w + 6,
        events := events w @ [Imshow pattern, Sleep_for ms, Drop_frame, Drop_frame, Drop_frame,
                              Next_frame, Next_frame, Next_frame]\<rparr>"
  "fst (next_frame (snd (next_frame (snd (next_frame (drop_frame (drop_frame (drop_frame
     (w\<lparr>events := events w @ [Imshow pattern, Sleep_for ms]\<rparr>)))))))))
   = m_Stream w (consumed w + 5)"
  by (simp_all add: next_frame_def drop_frame_def numeral_eq_Suc)

text \<open>
  \<^bold>\<open>C6\<close> (as amended). For a settle time of at least 0 and \<open>N \<ge> 1\<close> samples,
  \<open>capture_image\<close> shows the pattern, sleeps for the settle time, and then takes six frames
  from the camera, three dropped and three read, before any sample. For \<open>N \<ge> 2\<close> it reads
  the \<open>N\<close> frames that follow (each of the camera's frame size) and returns their pixelwise
  mean cast to 8 bit, \<open>6 + N\<close> frames being consumed. For \<open>N = 1\<close> it reads no further frame
  and returns the sixth frame, the last of the three read.
\<close>

theorem capture_image_result:
  assumes "0 \<le> settle_time_ms" and "1 \<le> capture_samples"
    and "\<forall>i<nat capture_samples. length (m_Stream w (consumed w + 6 + i)) = frame_size w"
  shows "capture_image w pattern settle_time_ms capture_samples =
     Inr (if 1 < capture_samples then
            map (\<lambda>j. saturate_cast
                        (of_int (\<Sum>i \<leftarrow> [0..<nat capture_samples].
                                    int (unat (m_Stream w (consumed w + 6 + i) ! j)))
                         / of_int capture_samples))
                [0..<frame_size w]
          else m_Stream w (consumed w + 5),
          w\<lparr>consumed := consumed w + 6 + (if 1 < capture_samples then nat capture_samples else 0),
            events := events w @
              [Imshow pattern, Sleep_for settle_time_ms, Drop_frame, Drop_frame, Drop_frame,
               Next_frame, Next_frame, Next_frame] @
              replicate (if 1 < capture_samples then nat capture_samples else 0) Next_frame\<rparr>)"
proof -
  define w5 where "w5 = w\<lparr>consumed := consumed w + 6,
        events := events w @ [Imshow pattern, Sleep_for settle_time_ms, Drop_frame, Drop_frame,
                              Drop_frame, Next_frame, Next_frame, Next_frame]\<rparr>"
  have pre: "\<forall>i<nat capture_samples.
      length (m_Stream w5 (consumed w5 + i)) = length (replicate (frame_size w5) (0::int))"
    using assms(3) by (simp add: w5_def)
  note loop = average_loop_result [OF pre]
  show ?thesis
  proof (cases "1 < capture_samples")
    case True
    then show ?thesis
      using assms(1) loop
      by (simp add: capture_image_def Let_def burn_frames w5_def [symmetric])
         (simp add: w5_def)
  next
    case False
    then show ?thesis
      using assms(1,2)
      by (simp add: capture_image_def Let_def burn_frames prod_eq_iff)
  qed
qed

theorem capture_image_result_witness:
  "capture_image ramp_camera [255] 500 3 =
     Inr ([70],
          \<lparr>m_Stream = (\<lambda>i. [word_of_nat (10 * i)]), consumed = 9, frame_size = 1,
           events = [Imshow [255], Sleep_for 500, Drop_frame, Drop_frame, Drop_frame,
                     Next_frame, Next_frame, Next_frame, Next_frame, Next_frame, Next_frame]\<rparr>)"
proof -
  have h: "\<forall>i<nat 3. length (m_Stream ramp_camera (consumed ramp_camera + 6 + i))
                       = frame_size ramp_camera"
    by (simp add: ramp_camera_def)
  have l: "[0..<3] = [0, 1, 2]" "[0..<1] = [0]"
    by (simp_all add: upt_rec)
  have s: "saturate_cast 70 = 70"
    by code_simp
  have r: "replicate 3 Next_frame = [Next_frame, Next_frame, Next_frame]"
    by (simp add: numeral_3_eq_3)
  have "(0::int) \<le> 500" and "(1::int) \<le> 3"
    by simp_all
  from capture_image_result [OF this h, of "[255]"] show ?thesis
    by (simp add: ramp_camera_def l s r)
qed

text \<open>
  The specification discards three frames before the samples. On the camera whose \<open>i\<close>-th
  frame shows \<open>10 i\<close>, two samples give the mean of frames 6 and 7, not of frames 3 and 4,
  and one sample gives frame 5, not frame 3.
\<close>

theorem capture_discards_six_counterexample:
  "map_sum id fst (capture_image ramp_camera [255] 1000 2) = Inr [65]
   \<and> spec_capture_image ramp_camera 2 = [35]
   \<and> map_sum id fst (capture_image ramp_camera [255] 1000 1) = Inr [50]
   \<and> spec_capture_image ramp_camera 1 = [30]"
  by code_simp

end
